theory Spec2Isabelle
  imports Main "HOL-Library.Code_Target_Numeral"
begin

section \<open>gtpm: a text pattern matcher (gtpm.go)\<close>

text \<open>
  The Go package compiles a comma-separated pattern into a slice of instructions
  (closures over an \<^verbatim>\<open>io.Reader\<close>) and runs them in order against a reader.
  The embedding keeps the structure of \<^verbatim>\<open>gtpm.go\<close>:
  \<^item> a closure made by \<^verbatim>\<open>genInst...\<close> is a value of the datatype \<open>instruction\<close>
    holding the captured parameters; \<open>runInst\<close> is the closure's body;
  \<^item> \<^verbatim>\<open>matcher.intBinds\<close> is a Go slice (backing array, length, capacity) in an
    explicit memory of backing arrays, and the \<^verbatim>\<open>*int\<close> an instruction captures is
    an address (array, index) in that memory;
  \<^item> the \<^verbatim>\<open>io.Reader\<close> is a queue of chunks: each \<^verbatim>\<open>Read\<close> delivers at
    most the next chunk, and \<^verbatim>\<open>io.EOF\<close> is the error of a read on the empty queue;
  \<^item> a run-time panic (index out of range, \<^verbatim>\<open>make\<close> with a negative length) is the
    fault \<open>Panic\<close>, a returned \<^verbatim>\<open>Error\<close> value is the fault \<open>Returned\<close>.
  Go's \<^verbatim>\<open>int\<close> is taken as 64 bits wide (so \<^verbatim>\<open>int(n)\<close> of an \<^verbatim>\<open>int64\<close>
  is \<open>n\<close>), and memory as unbounded: positions and buffer capacities are natural
  numbers (a capacity that the scan doubles has been filled with bytes read, so it stays
  far below the 63 bits of an \<^verbatim>\<open>int\<close>), cell values are integers in the range
  \<^verbatim>\<open>strconv.ParseInt\<close> accepts.
\<close>

subsection \<open>Errors\<close>

datatype numErr = ErrSyntax | ErrRange

text \<open>The errors a \<^verbatim>\<open>Cause\<close> can hold: \<^verbatim>\<open>io.EOF\<close> from the reader, or the
  \<^verbatim>\<open>*strconv.NumError\<close> of \<^verbatim>\<open>ParseInt\<close> with the string it was given.\<close>

datatype cause = EOF | NumError string numErr

datatype ErrorCode =
    ErrConstNotMuch
  | ErrVarNotMuch
  | ErrVarExceedMaxSize int
  | ErrIntVarNotMuch
  | ErrParseColonExpected
  | ErrParseVariableNotDefined string
  | ErrParseSuffixExpected
  | ErrParseInvalidSlash
  | ErrParseInvalidType

record Error =
  Code :: ErrorCode
  Pos :: nat
  Cause :: "cause option"

datatype fault = Returned Error | Panic

datatype parseState = nonParseState | blindParseState | binParseState | intParseState

subsection \<open>The library functions the package calls\<close>

text \<open>\<^verbatim>\<open>strconv.ParseUint(s, 10, 64)\<close>: decimal digits only (the bytes
  \<^verbatim>\<open>'0'\<close> to \<^verbatim>\<open>'9'\<close>, codes 48 to 57), a range error as soon as the value leaves
  64 bits.\<close>

definition digitVal :: "char \<Rightarrow> nat option" where
  "digitVal c =
     (let n = (of_char c :: nat) in if 48 \<le> n \<and> n \<le> 57 then Some (n - 48) else None)"

fun ParseUintLoop :: "string \<Rightarrow> nat \<Rightarrow> numErr + nat" where
  "ParseUintLoop [] n = Inr n"
| "ParseUintLoop (c # cs) n =
     (case digitVal c of
        None \<Rightarrow> Inl ErrSyntax
      | Some d \<Rightarrow>
          if n \<ge> 1844674407370955162 then Inl ErrRange
          else if n * 10 + d > 18446744073709551615 then Inl ErrRange
          else ParseUintLoop cs (n * 10 + d))"

definition ParseUint :: "string \<Rightarrow> numErr + nat" where
  "ParseUint s = (if s = [] then Inl ErrSyntax else ParseUintLoop s 0)"

text \<open>\<^verbatim>\<open>strconv.ParseInt(s, 10, 64)\<close>: an optional sign, then \<open>ParseUint\<close>, then the
  signed range.\<close>

definition ParseInt :: "string \<Rightarrow> numErr + int" where
  "ParseInt s =
     (if s = [] then Inl ErrSyntax
      else
        let neg = (hd s = CHR ''-'');
            s1 = (if hd s = CHR ''+'' \<or> hd s = CHR ''-'' then tl s else s)
        in case ParseUint s1 of
             Inl e \<Rightarrow> Inl e
           | Inr un \<Rightarrow>
               if \<not> neg \<and> un \<ge> 9223372036854775808 then Inl ErrRange
               else if neg \<and> un > 9223372036854775808 then Inl ErrRange
               else Inr (if neg then - int un else int un))"

text \<open>\<^verbatim>\<open>strings.Split(s, sep)\<close> for a one-byte separator: one more token than there
  are separators.\<close>

fun Split :: "string \<Rightarrow> char \<Rightarrow> string list" where
  "Split [] sep = [[]]"
| "Split (c # cs) sep =
     (if c = sep then [] # Split cs sep
      else (case Split cs sep of [] \<Rightarrow> [[c]] | t # ts \<Rightarrow> (c # t) # ts))"

text \<open>\<^verbatim>\<open>(*bytes.Buffer).ReadString(delim)\<close> on a buffer holding \<open>r\<close>: the data up to
  and including the first delimiter, whether \<^verbatim>\<open>io.EOF\<close> was met first, and what is
  left in the buffer.\<close>

fun ReadString :: "string \<Rightarrow> char \<Rightarrow> string \<times> bool \<times> string" where
  "ReadString [] delim = ([], True, [])"
| "ReadString (c # cs) delim =
     (if c = delim then ([c], False, cs)
      else (case ReadString cs delim of (l, e, r) \<Rightarrow> (c # l, e, r)))"

subsection \<open>The reader\<close>

text \<open>A source of bytes that delivers its data in chunks: a \<^verbatim>\<open>Read(p)\<close> returns at
  most the next chunk (and at most \<open>len(p)\<close> bytes of it, the rest of the chunk staying
  first in the queue), and \<^verbatim>\<open>io.EOF\<close> once the queue is empty.
  \<open>calls\<close> counts the calls of \<^verbatim>\<open>Read\<close>.\<close>

record Reader =
  chunks :: "string list"
  calls :: nat

definition Read :: "Reader \<Rightarrow> nat \<Rightarrow> (cause + string) \<times> Reader" where
  "Read r k =
     (case chunks r of
        [] \<Rightarrow> (Inl EOF, r\<lparr>calls := calls r + 1\<rparr>)
      | c # cs \<Rightarrow>
          if length c \<le> k then (Inr c, \<lparr>chunks = cs, calls = calls r + 1\<rparr>)
          else (Inr (take k c), \<lparr>chunks = drop k c # cs, calls = calls r + 1\<rparr>))"

definition readerSize :: "Reader \<Rightarrow> nat" where
  "readerSize r = sum_list (map (\<lambda>c. Suc (length c)) (chunks r))"

definition NewReader :: "string \<Rightarrow> Reader" where
  "NewReader s = \<lparr>chunks = (if s = [] then [] else [s]), calls = 0\<rparr>"

subsection \<open>Memory, slices of int, pointers\<close>

type_synonym heap = "int list list"
type_synonym ptr = "nat \<times> nat"

record slice =
  arr :: nat
  len :: nat
  cap :: nat

definition nilSlice :: slice where
  "nilSlice = \<lparr>arr = 0, len = 0, cap = 0\<rparr>"

definition deref :: "heap \<Rightarrow> ptr \<Rightarrow> int" where
  "deref h p = h ! fst p ! snd p"

definition store :: "heap \<Rightarrow> ptr \<Rightarrow> int \<Rightarrow> heap" where
  "store h p x = h[fst p := (h ! fst p)[snd p := x]]"

text \<open>\<^verbatim>\<open>&s[i]\<close>: the address of element \<open>i\<close> of the backing array \<open>s\<close> has now.\<close>

definition addr :: "slice \<Rightarrow> nat \<Rightarrow> ptr" where
  "addr s i = (arr s, i)"

text \<open>\<^verbatim>\<open>append(s, x)\<close>. With room left the element is written into the backing array;
  otherwise a new array is allocated, the elements are copied, and the old array stays
  where it is. The language leaves the new capacity to the implementation: it is the
  parameter \<open>growslice\<close> (from the old capacity), raised to the new length if smaller.\<close>

definition appendInt :: "(nat \<Rightarrow> nat) \<Rightarrow> heap \<Rightarrow> slice \<Rightarrow> int \<Rightarrow> heap \<times> slice" where
  "appendInt growslice h s x =
     (if len s < cap s
      then (h[arr s := (h ! arr s)[len s := x]], s\<lparr>len := len s + 1\<rparr>)
      else
        let newcap = max (growslice (cap s)) (len s + 1);
            old = (if cap s = 0 then [] else h ! arr s);
            new = take (len s) old @ [x] @ replicate (newcap - (len s + 1)) 0
        in (h @ [new], \<lparr>arr = length h, len = len s + 1, cap = newcap\<rparr>))"

text \<open>The capacities the gc runtime gives a slice of int that grows by one element
  from nil: 1, 2, 4, 8, ... (it doubles a capacity below 256 and grows larger ones by a
  smaller factor; the patterns evaluated with this policy have at most four cells).\<close>

definition gcGrowslice :: "nat \<Rightarrow> nat" where
  "gcGrowslice c = (if c = 0 then 1 else 2 * c)"

subsection \<open>Instructions\<close>

text \<open>One constructor per \<^verbatim>\<open>genInst...\<close> function, with the parameters its closure
  captures.\<close>

datatype instruction =
    genInstConst nat string
  | genInstVarWithSize nat ptr bool
  | genInstVarWithoutSize nat string bool int
  | genInstIntWithSize nat ptr ptr
  | genInstIntWithoutSize nat string ptr int

text \<open>The loop \<^verbatim>\<open>for i := 0; i < l; { n, err := r.Read(buf[i:]); ...; i += n }\<close> of the
  three sized instructions: \<open>Inl\<close> the read error, \<open>Inr\<close> the filled buffer.\<close>

function readLoop :: "Reader \<Rightarrow> string \<Rightarrow> nat \<Rightarrow> nat \<Rightarrow> (cause + string) \<times> Reader" where
  "readLoop r buf i l =
     (if i < l then
        (case Read r (l - i) of
           (Inl e, r') \<Rightarrow> (Inl e, r')
         | (Inr bs, r') \<Rightarrow>
             readLoop r' (take i buf @ bs @ drop (i + length bs) buf) (i + length bs) l)
      else (Inr buf, r))"
  by pat_completeness auto
termination
  by (relation "measure (\<lambda>(r, buf, i, l). readerSize r)")
     (auto simp: Read_def readerSize_def split: list.splits if_splits)

text \<open>The loop of the two suffix-scanning instructions, which differ in the code of
  a read error (\<open>code\<close>) and in what they do with the prefix once the suffix is found.
  \<open>scanBody\<close> is one iteration: \<open>Inl\<close> when the loop is left (with a fault or with
  \<^verbatim>\<open>buf[:midx]\<close>), \<open>Inr\<close> the variables of the next iteration.\<close>

record scanVars =
  rdr :: Reader
  idx :: nat
  midx :: nat
  bs :: nat
  buf :: string

text \<open>The buffer after \<^verbatim>\<open>r.Read(buf[idx : idx+1])\<close> returned the bytes \<open>got\<close> (one byte,
  or none), and the test \<^verbatim>\<open>idx >= len(suffix)\<close> (after \<^verbatim>\<open>idx++\<close>) with
  \<^verbatim>\<open>bytes.Equal(suffix, buf[midx:midx+len(suffix)])\<close>.\<close>

definition written :: "scanVars \<Rightarrow> string \<Rightarrow> string" where
  "written s got = take (idx s) (buf s) @ got @ drop (idx s + length got) (buf s)"

definition suffixFound :: "string \<Rightarrow> scanVars \<Rightarrow> string \<Rightarrow> bool" where
  "suffixFound suffix s got =
     (idx s + 1 \<ge> length suffix \<and>
      suffix = take (length suffix) (drop (midx s) (written s got)))"

definition scanBody ::
  "ErrorCode \<Rightarrow> nat \<Rightarrow> string \<Rightarrow> int \<Rightarrow> scanVars \<Rightarrow> ((fault + string) \<times> Reader) + scanVars" where
  "scanBody code ps suffix mx s =
     (case Read (rdr s) 1 of
        (Inl e, r') \<Rightarrow> Inl (Inl (Returned \<lparr>Code = code, Pos = ps, Cause = Some e\<rparr>), r')
      | (Inr got, r') \<Rightarrow>
          if suffixFound suffix s got then Inl (Inr (take (midx s) (written s got)), r')
          else
            let midx1 = (if idx s + 1 \<ge> length suffix then midx s + 1 else midx s) in
            if idx s + 1 = bs s then
              if int (bs s * 2) > mx
              then Inl (Inl (Returned \<lparr>Code = ErrVarExceedMaxSize mx, Pos = ps, Cause = None\<rparr>), r')
              else Inr \<lparr>rdr = r', idx = idx s + 1, midx = midx1, bs = bs s * 2,
                        buf = written s got @
                              replicate (bs s * 2 - length (written s got)) (CHR 0x00)\<rparr>
            else Inr \<lparr>rdr = r', idx = idx s + 1, midx = midx1, bs = bs s,
                      buf = written s got\<rparr>)"

function scanLoop ::
  "ErrorCode \<Rightarrow> nat \<Rightarrow> string \<Rightarrow> int \<Rightarrow> scanVars \<Rightarrow> (fault + string) \<times> Reader" where
  "scanLoop code ps suffix mx s =
     (case scanBody code ps suffix mx s of
        Inl out \<Rightarrow> out
      | Inr s' \<Rightarrow> scanLoop code ps suffix mx s')"
  by pat_completeness auto
termination
  by (relation "measure (\<lambda>(code, ps, suffix, mx, s). readerSize (rdr s))")
     (auto simp: scanBody_def Read_def readerSize_def Let_def
           split: list.splits if_splits prod.splits sum.splits)

text \<open>The variables at the head of every iteration the loop makes, in order.\<close>

function scanStates ::
  "ErrorCode \<Rightarrow> nat \<Rightarrow> string \<Rightarrow> int \<Rightarrow> scanVars \<Rightarrow> scanVars list" where
  "scanStates code ps suffix mx s =
     s # (case scanBody code ps suffix mx s of
            Inl out \<Rightarrow> []
          | Inr s' \<Rightarrow> scanStates code ps suffix mx s')"
  by pat_completeness auto
termination
  by (relation "measure (\<lambda>(code, ps, suffix, mx, s). readerSize (rdr s))")
     (auto simp: scanBody_def Read_def readerSize_def Let_def
           split: list.splits if_splits prod.splits sum.splits)

definition scanInit :: "Reader \<Rightarrow> scanVars" where
  "scanInit r = \<lparr>rdr = r, idx = 0, midx = 0, bs = 16, buf = replicate 16 (CHR 0x00)\<rparr>"

text \<open>The body of each closure: the bytes it returns (\<open>None\<close> for a nil slice), the
  memory and the reader afterwards.\<close>

fun runInst :: "instruction \<Rightarrow> heap \<Rightarrow> Reader \<Rightarrow> (fault + string option) \<times> heap \<times> Reader" where
  "runInst (genInstConst ps match) h r =
     (case readLoop r (replicate (length match) (CHR 0x00)) 0 (length match) of
        (Inl e, r') \<Rightarrow> (Inl (Returned \<lparr>Code = ErrConstNotMuch, Pos = ps, Cause = Some e\<rparr>), h, r')
      | (Inr b, r') \<Rightarrow>
          if match \<noteq> b
          then (Inl (Returned \<lparr>Code = ErrConstNotMuch, Pos = ps, Cause = None\<rparr>), h, r')
          else (Inr None, h, r'))"
| "runInst (genInstVarWithSize ps sz capture) h r =
     (if deref h sz < 0 then (Inl Panic, h, r)
      else
        case readLoop r (replicate (nat (deref h sz)) (CHR 0x00)) 0 (nat (deref h sz)) of
          (Inl e, r') \<Rightarrow> (Inl (Returned \<lparr>Code = ErrVarNotMuch, Pos = ps, Cause = Some e\<rparr>), h, r')
        | (Inr b, r') \<Rightarrow> (Inr (if capture then Some b else None), h, r'))"
| "runInst (genInstVarWithoutSize ps suffix capture mx) h r =
     (case scanLoop ErrVarNotMuch ps suffix mx (scanInit r) of
        (Inl f, r') \<Rightarrow> (Inl f, h, r')
      | (Inr b, r') \<Rightarrow> (Inr (if capture then Some b else None), h, r'))"
| "runInst (genInstIntWithSize ps sz outSize) h r =
     (if deref h sz < 0 then (Inl Panic, h, r)
      else
        case readLoop r (replicate (nat (deref h sz)) (CHR 0x00)) 0 (nat (deref h sz)) of
          (Inl e, r') \<Rightarrow> (Inl (Returned \<lparr>Code = ErrIntVarNotMuch, Pos = ps, Cause = Some e\<rparr>), h, r')
        | (Inr b, r') \<Rightarrow>
            (case ParseInt b of
               Inl e \<Rightarrow>
                 (Inl (Returned \<lparr>Code = ErrIntVarNotMuch, Pos = ps, Cause = Some (NumError b e)\<rparr>), h, r')
             | Inr n \<Rightarrow> (Inr (Some b), store h outSize n, r')))"
| "runInst (genInstIntWithoutSize ps suffix outSize mx) h r =
     (case scanLoop ErrIntVarNotMuch ps suffix mx (scanInit r) of
        (Inl f, r') \<Rightarrow> (Inl f, h, r')
      | (Inr b, r') \<Rightarrow>
          (case ParseInt b of
             Inl e \<Rightarrow>
               (Inl (Returned \<lparr>Code = ErrIntVarNotMuch, Pos = ps, Cause = Some (NumError b e)\<rparr>), h, r')
           | Inr n \<Rightarrow> (Inr (Some b), store h outSize n, r')))"

subsection \<open>The matcher\<close>

record TextPatternMatcher =
  instSlice :: "instruction list"
  intBinds :: slice
  maxVarSize :: int

datatype Option = WithMaxVariableSize int

fun applyOption :: "Option \<Rightarrow> TextPatternMatcher \<Rightarrow> TextPatternMatcher" where
  "applyOption (WithMaxVariableSize mx) tpm = tpm\<lparr>maxVarSize := mx\<rparr>"

text \<open>\<^verbatim>\<open>MatchReader\<close>: the instructions in order, a non-nil result appended to
  \<open>binds\<close>, the first error returned at once.\<close>

fun matchLoop ::
  "instruction list \<Rightarrow> heap \<Rightarrow> Reader \<Rightarrow> string list \<Rightarrow> (fault + string list) \<times> heap \<times> Reader" where
  "matchLoop [] h r binds = (Inr binds, h, r)"
| "matchLoop (inst # rest) h r binds =
     (case runInst inst h r of
        (Inl f, h', r') \<Rightarrow> (Inl f, h', r')
      | (Inr b, h', r') \<Rightarrow>
          matchLoop rest h' r' (case b of None \<Rightarrow> binds | Some x \<Rightarrow> binds @ [x]))"

definition MatchReader ::
  "TextPatternMatcher \<Rightarrow> heap \<Rightarrow> Reader \<Rightarrow> (fault + string list) \<times> heap \<times> Reader" where
  "MatchReader tpm h r = matchLoop (instSlice tpm) h r []"

subsection \<open>Compile\<close>

text \<open>The variables of \<^verbatim>\<open>Compile\<close>'s loop, with the memory that holds the backing
  arrays of \<^verbatim>\<open>matcher.intBinds\<close>.\<close>

record compileVars =
  matcher :: TextPatternMatcher
  memory :: heap
  intBindsMap :: "string \<rightharpoonup> nat"
  state :: parseState
  pos :: nat
  name :: string

text \<open>\<^verbatim>\<open>matcher.intBinds = append(matcher.intBinds, x)\<close> and
  \<^verbatim>\<open>matcher.instSlice = append(matcher.instSlice, inst)\<close>.\<close>

definition appendBind :: "(nat \<Rightarrow> nat) \<Rightarrow> int \<Rightarrow> compileVars \<Rightarrow> compileVars" where
  "appendBind growslice x v =
     (case appendInt growslice (memory v) (intBinds (matcher v)) x of
        (h, s) \<Rightarrow> v\<lparr>matcher := (matcher v)\<lparr>intBinds := s\<rparr>, memory := h\<rparr>)"

definition emit :: "instruction \<Rightarrow> compileVars \<Rightarrow> compileVars" where
  "emit inst v = v\<lparr>matcher := (matcher v)\<lparr>instSlice := instSlice (matcher v) @ [inst]\<rparr>\<rparr>"

definition binds :: "compileVars \<Rightarrow> slice" where
  "binds v = intBinds (matcher v)"

definition parseError :: "ErrorCode \<Rightarrow> nat \<Rightarrow> fault" where
  "parseError code p = Returned \<lparr>Code = code, Pos = p, Cause = None\<rparr>"

text \<open>The branch of a field that starts with \<open>_\<close> (lines 125 to 147).\<close>

definition compileBlind :: "(nat \<Rightarrow> nat) \<Rightarrow> compileVars \<Rightarrow> string \<Rightarrow> fault + compileVars" where
  "compileBlind growslice v line =
     (if length line = 1 then Inr (v\<lparr>state := blindParseState\<rparr>)
      else
        let tokens = Split line (CHR '':'') in
        if length tokens \<noteq> 2 then Inl (parseError ErrParseColonExpected (pos v))
        else
          case ParseInt (tokens ! 1) of
            Inr n \<Rightarrow>
              let v1 = appendBind growslice n v in
              Inr (emit (genInstVarWithSize (pos v) (addr (binds v1) (len (binds v1) - 1)) False) v1)
          | Inl e \<Rightarrow>
              (case intBindsMap v (tokens ! 1) of
                 None \<Rightarrow> Inl (parseError (ErrParseVariableNotDefined (tokens ! 1)) (pos v))
               | Some i \<Rightarrow> Inr (emit (genInstVarWithSize (pos v) (addr (binds v) i) False) v)))"

text \<open>The branch of a field that holds a \<open>/\<close> (lines 149 to 211).\<close>

definition compileBind :: "(nat \<Rightarrow> nat) \<Rightarrow> compileVars \<Rightarrow> string \<Rightarrow> fault + compileVars" where
  "compileBind growslice v line =
     (let tokens = Split line (CHR ''/'') in
      if length tokens \<noteq> 2 then Inl (parseError ErrParseInvalidSlash (pos v))
      else if length (tokens ! 1) < 3 then Inl (parseError ErrParseInvalidType (pos v))
      else if take 3 (tokens ! 1) = ''bin'' then
        let subTokens = Split (tokens ! 1) (CHR '':'') in
        if subTokens ! 0 \<noteq> ''bin'' then Inl (parseError ErrParseInvalidType (pos v))
        else if length subTokens = 2 then
          case ParseInt (subTokens ! 1) of
            Inr n \<Rightarrow>
              let v1 = appendBind growslice n v in
              Inr (emit (genInstVarWithSize (pos v) (addr (binds v1) (len (binds v1) - 1)) True) v1)
          | Inl e \<Rightarrow>
              (case intBindsMap v (subTokens ! 1) of
                 None \<Rightarrow> Inl (parseError (ErrParseVariableNotDefined (subTokens ! 1)) (pos v))
               | Some i \<Rightarrow> Inr (emit (genInstVarWithSize (pos v) (addr (binds v) i) True) v))
        else Inr (v\<lparr>state := binParseState\<rparr>)
      else if take 3 (tokens ! 1) = ''int'' then
        let subTokens = Split (tokens ! 1) (CHR '':'') in
        if subTokens ! 0 \<noteq> ''int'' then Inl (parseError ErrParseInvalidType (pos v))
        else if length subTokens = 2 then
          case ParseInt (subTokens ! 1) of
            Inr n \<Rightarrow>
              let v1 = appendBind growslice n v;
                  v2 = appendBind growslice 0 v1;
                  v3 = v2\<lparr>intBindsMap := (intBindsMap v2)(tokens ! 0 \<mapsto> len (binds v2) - 1)\<rparr>
              in Inr (emit (genInstIntWithSize (pos v) (addr (binds v3) (len (binds v3) - 2))
                              (addr (binds v3) (len (binds v3) - 1))) v3)
          | Inl e \<Rightarrow>
              (case intBindsMap v (subTokens ! 1) of
                 None \<Rightarrow> Inl (parseError (ErrParseVariableNotDefined (subTokens ! 1)) (pos v))
               | Some i \<Rightarrow>
                   let v1 = appendBind growslice 0 v;
                       v2 = v1\<lparr>intBindsMap := (intBindsMap v1)(tokens ! 0 \<mapsto> len (binds v1) - 1)\<rparr>
                   in Inr (emit (genInstIntWithSize (pos v) (addr (binds v2) i)
                                   (addr (binds v2) (len (binds v2) - 1))) v2))
        else Inr (v\<lparr>name := tokens ! 0, state := intParseState\<rparr>)
      else Inl (parseError ErrParseInvalidType (pos v)))"

text \<open>The branch of a field that is the suffix of the pending directive (lines 213
  to 230).\<close>

definition compileSuffix :: "(nat \<Rightarrow> nat) \<Rightarrow> compileVars \<Rightarrow> string \<Rightarrow> compileVars" where
  "compileSuffix growslice v line =
     (case state v of
        blindParseState \<Rightarrow>
          emit (genInstVarWithoutSize (pos v) line False (maxVarSize (matcher v))) v
      | binParseState \<Rightarrow>
          emit (genInstVarWithoutSize (pos v) line True (maxVarSize (matcher v))) v
      | intParseState \<Rightarrow>
          let v1 = appendBind growslice 0 v;
              v2 = v1\<lparr>intBindsMap := (intBindsMap v1)(name v1 \<mapsto> len (binds v1) - 1)\<rparr>
          in emit (genInstIntWithoutSize (pos v) line (addr (binds v2) (len (binds v2) - 1))
                     (maxVarSize (matcher v))) v2
      | nonParseState \<Rightarrow> v)
     \<lparr>state := nonParseState\<rparr>"

text \<open>The if-chain on the field (lines 124 to 234); the field is not empty here.\<close>

definition compileLine :: "(nat \<Rightarrow> nat) \<Rightarrow> compileVars \<Rightarrow> string \<Rightarrow> fault + compileVars" where
  "compileLine growslice v line =
     (if hd line = CHR ''_'' then compileBlind growslice v line
      else if CHR ''/'' \<in> set line then compileBind growslice v line
      else if state v \<noteq> nonParseState then Inr (compileSuffix growslice v line)
      else Inr (emit (genInstConst (pos v) line) v))"

lemma ReadString_shorter:
  "ReadString r delim = (l, False, r') \<Longrightarrow> length r' < length r"
  by (induction r arbitrary: l) (auto split: if_splits prod.splits)

text \<open>The loop of \<^verbatim>\<open>Compile\<close> on what is left of the pattern. Indexing the empty
  \<^verbatim>\<open>rawLine\<close> (line 101) or the empty \<^verbatim>\<open>line\<close> (line 124) panics.\<close>

function compileLoop ::
  "(nat \<Rightarrow> nat) \<Rightarrow> compileVars \<Rightarrow> string \<Rightarrow> fault + TextPatternMatcher \<times> heap" where
  "compileLoop growslice v r =
     (case ReadString r (CHR '','') of
        (rawLine, eof, r') \<Rightarrow>
          if rawLine = [] then Inl Panic
          else
            let line = (if last rawLine = CHR '','' then butlast rawLine else rawLine) in
            if line = [] then Inl Panic
            else
              (case compileLine growslice v line of
                 Inl f \<Rightarrow> Inl f
               | Inr v' \<Rightarrow>
                   if eof then
                     if state v' \<noteq> nonParseState
                     then Inl (parseError ErrParseSuffixExpected (pos v'))
                     else Inr (matcher v', memory v')
                   else compileLoop growslice (v'\<lparr>pos := pos v' + length rawLine\<rparr>) r'))"
  by pat_completeness auto
termination
  by (relation "measure (\<lambda>(g, v, r). length r)") (auto dest: ReadString_shorter [OF sym])

text \<open>The matcher before the loop (lines 79 to 88), the variables at the first
  iteration, and \<^verbatim>\<open>Compile\<close>. The option list is variadic in Go; \<open>growslice\<close> is
  the growth policy of \<^verbatim>\<open>append\<close>.\<close>

definition newMatcher :: "Option list \<Rightarrow> TextPatternMatcher" where
  "newMatcher opts =
     (let m = fold applyOption opts \<lparr>instSlice = [], intBinds = nilSlice, maxVarSize = 0\<rparr>
      in if maxVarSize m = 0 then m\<lparr>maxVarSize := 4096\<rparr> else m)"

definition initVars :: "Option list \<Rightarrow> compileVars" where
  "initVars opts =
     \<lparr>matcher = newMatcher opts, memory = [], intBindsMap = Map.empty,
      state = nonParseState, pos = 1, name = []\<rparr>"

definition Compile ::
  "(nat \<Rightarrow> nat) \<Rightarrow> string \<Rightarrow> Option list \<Rightarrow> fault + TextPatternMatcher \<times> heap" where
  "Compile growslice pattern opts = compileLoop growslice (initVars opts) pattern"

subsection \<open>Notions used in the statements\<close>

text \<open>Whether a result is the rejection of the match with an error value of the
  given code.\<close>

definition rejectedWith :: "ErrorCode \<Rightarrow> fault + 'a \<Rightarrow> bool" where
  "rejectedWith code res = (case res of Inl (Returned e) \<Rightarrow> Code e = code | _ \<Rightarrow> False)"

text \<open>The instructions that read a number of bytes known before the first read.\<close>

definition fixedSize :: "instruction \<Rightarrow> bool" where
  "fixedSize inst =
     (case inst of
        genInstConst ps match \<Rightarrow> True
      | genInstVarWithSize ps sz capture \<Rightarrow> True
      | genInstIntWithSize ps sz outSize \<Rightarrow> True
      | _ \<Rightarrow> False)"

text \<open>The bytes a reader has not delivered yet, and what is observed of an instruction's
  run: its result, the memory, and the bytes left unread.\<close>

definition unread :: "Reader \<Rightarrow> string" where
  "unread r = concat (chunks r)"

definition observed :: "(fault + string option) \<times> heap \<times> Reader \<Rightarrow> (fault + string option) \<times> heap \<times> string" where
  "observed res = (fst res, fst (snd res), unread (snd (snd res)))"

text \<open>Fields. A proper field is not empty and holds no comma; \<open>joinFields\<close> writes
  fields one after the other, each with its comma, so that \<open>joinFields fs @ f @ rest\<close>
  is a pattern whose first fields are \<open>fs\<close>, followed by the field \<open>f\<close> when \<open>rest\<close> is
  empty or starts with a comma. \<open>compileFields\<close> is the loop of \<^verbatim>\<open>Compile\<close> on such
  fields, each read with its comma: the body \<open>compileLine\<close>, then
  \<^verbatim>\<open>pos += len(rawLine)\<close>.\<close>

definition properField :: "string \<Rightarrow> bool" where
  "properField f = (f \<noteq> [] \<and> CHR '','' \<notin> set f)"

definition joinFields :: "string list \<Rightarrow> string" where
  "joinFields fs = concat (map (\<lambda>f. f @ '','') fs)"

fun compileFields :: "(nat \<Rightarrow> nat) \<Rightarrow> compileVars \<Rightarrow> string list \<Rightarrow> fault + compileVars" where
  "compileFields growslice v [] = Inr v"
| "compileFields growslice v (f # fs) =
     (case compileLine growslice v f of
        Inl e \<Rightarrow> Inl e
      | Inr v' \<Rightarrow> compileFields growslice (v'\<lparr>pos := pos v' + (length f + 1)\<rparr>) fs)"

text \<open>What is left of a pattern starts with an empty field: nothing is left (the
  pattern was empty or ended with a comma), or a comma comes first.\<close>

definition emptyFieldNext :: "string \<Rightarrow> bool" where
  "emptyFieldNext r = (r = [] \<or> take 1 r = '','')"

text \<open>A field that the if-chain of \<^verbatim>\<open>Compile\<close> takes neither for a blind directive
  (first byte \<open>_\<close>) nor for a binding directive (a \<open>/\<close> in it), and a name that can
  stand before \<^verbatim>\<open>/bin\<close> or \<^verbatim>\<open>/int\<close> in a binding directive.\<close>

definition suffixField :: "string \<Rightarrow> bool" where
  "suffixField s = (properField s \<and> take 1 s \<noteq> ''_'' \<and> CHR ''/'' \<notin> set s)"

definition bindName :: "string \<Rightarrow> bool" where
  "bindName nm = (take 1 nm \<noteq> ''_'' \<and> CHR ''/'' \<notin> set nm \<and> CHR '','' \<notin> set nm)"

text \<open>The invariant of the scanning loop: \<open>bs\<close> is the length of the buffer, the next
  byte has room in it, and the buffer is no longer than the limit, or than the 16 bytes
  it starts with.\<close>

definition scanInv :: "int \<Rightarrow> scanVars \<Rightarrow> bool" where
  "scanInv mx s = (bs s = length (buf s) \<and> idx s < bs s \<and> int (bs s) \<le> max mx 16)"

text \<open>Whether an instruction returns its bytes to \<^verbatim>\<open>MatchReader\<close>, and the position
  its closure holds.\<close>

fun capturing :: "instruction \<Rightarrow> bool" where
  "capturing (genInstConst ps match) = False"
| "capturing (genInstVarWithSize ps sz capture) = capture"
| "capturing (genInstVarWithoutSize ps suffix capture mx) = capture"
| "capturing (genInstIntWithSize ps sz outSize) = True"
| "capturing (genInstIntWithoutSize ps suffix outSize mx) = True"

fun instPos :: "instruction \<Rightarrow> nat" where
  "instPos (genInstConst ps match) = ps"
| "instPos (genInstVarWithSize ps sz capture) = ps"
| "instPos (genInstVarWithoutSize ps suffix capture mx) = ps"
| "instPos (genInstIntWithSize ps sz outSize) = ps"
| "instPos (genInstIntWithoutSize ps suffix outSize mx) = ps"

text \<open>The shapes the if-chain of \<^verbatim>\<open>Compile\<close> tells apart: a blind directive starts
  with \<open>_\<close>; a binding directive (\<^verbatim>\<open>name/bin...\<close>, \<^verbatim>\<open>name/int...\<close>) does not and
  holds a \<open>/\<close>. A directive is without size, and leaves a suffix pending, when it is
  \<^verbatim>\<open>_\<close> alone or a binding directive whose part after the \<open>/\<close> does not split at the
  colon into two tokens.\<close>

definition isBlind :: "string \<Rightarrow> bool" where
  "isBlind f = (take 1 f = ''_'')"

definition isBind :: "string \<Rightarrow> bool" where
  "isBind f = (\<not> isBlind f \<and> CHR ''/'' \<in> set f)"

definition sizeless :: "string \<Rightarrow> bool" where
  "sizeless f =
     (f = ''_'' \<or> isBind f \<and> length (Split (Split f (CHR ''/'') ! 1) (CHR '':'')) \<noteq> 2)"

text \<open>\<open>suffixed pending fs\<close>: in the fields \<open>fs\<close>, compiled with a suffix pending or not,
  no directive stands where a suffix is pending. \<open>capturePositions q fs\<close>: for every binding
  directive of \<open>fs\<close> (the first field at position \<open>q\<close>), the position of the field in whose
  iteration its instruction is emitted: its own when it has a size, the next field's when
  it has none.\<close>

fun suffixed :: "bool \<Rightarrow> string list \<Rightarrow> bool" where
  "suffixed pending [] = True"
| "suffixed pending (f # fs) =
     (if isBlind f \<or> isBind f then \<not> pending \<and> suffixed (sizeless f) fs
      else suffixed False fs)"

fun capturePositions :: "nat \<Rightarrow> string list \<Rightarrow> nat list" where
  "capturePositions q [] = []"
| "capturePositions q (f # fs) =
     (if isBind f then [if sizeless f then q + (length f + 1) else q] else []) @
     capturePositions (q + (length f + 1)) fs"

abbreviation insts :: "compileVars \<Rightarrow> instruction list" where
  "insts v \<equiv> instSlice (matcher v)"

text \<open>Invariants of the loop of \<^verbatim>\<open>Compile\<close>: the positions of the instructions
  emitted so far increase and are below the position of the current field; a pending
  binding directive will have its instruction at the current field.\<close>

definition posInv :: "compileVars \<Rightarrow> bool" where
  "posInv v = (sorted_wrt (<) (map instPos (insts v)) \<and> (\<forall>i \<in> set (insts v). instPos i < pos v))"

definition pendingCapture :: "compileVars \<Rightarrow> nat list" where
  "pendingCapture v = (if state v = binParseState \<or> state v = intParseState then [pos v] else [])"

text \<open>The two drivers of the repository's tests: \<^verbatim>\<open>Compile\<close> then \<^verbatim>\<open>MatchReader\<close>
  on a \<^verbatim>\<open>bytes.Reader\<close> (\<^verbatim>\<open>TestCompileAndMatch\<close>), and one instruction on a
  \<^verbatim>\<open>bytes.Reader\<close> (\<^verbatim>\<open>invokeInst\<close>), with the gc growth policy.\<close>

definition compileAndMatch :: "string \<Rightarrow> Option list \<Rightarrow> string \<Rightarrow> fault + string list" where
  "compileAndMatch pattern opts input =
     (case Compile gcGrowslice pattern opts of
        Inl f \<Rightarrow> Inl f
      | Inr (m, h) \<Rightarrow> fst (MatchReader m h (NewReader input)))"

definition invokeInst :: "instruction \<Rightarrow> heap \<Rightarrow> string \<Rightarrow> (fault + string option) \<times> heap" where
  "invokeInst inst h input = (case runInst inst h (NewReader input) of (res, h', r') \<Rightarrow> (res, h'))"

text \<open>An address inside the memory.\<close>

definition validPtr :: "heap \<Rightarrow> ptr \<Rightarrow> bool" where
  "validPtr h p = (fst p < length h \<and> snd p < length (h ! fst p))"

declare readLoop.simps [simp del] scanLoop.simps [simp del] scanStates.simps [simp del]
  compileLoop.simps [simp del]

section \<open>The tests of the repository\<close>

text \<open>
  The table of \<^verbatim>\<open>TestCompileAndMatch\<close>: for each pattern and input of the test, the
  embedding returns the captures or the error the test expects.
\<close>

theorem TestCompileAndMatch:
  "compileAndMatch (''N/int,'' @ [CHR 0x0D, CHR 0x0A]) [] (''123'' @ [CHR 0x0D, CHR 0x0A]) = Inr [''123''] \<and>
   compileAndMatch (''_,'' @ [CHR 0x0D, CHR 0x0A]) [] (''deadbeaf'' @ [CHR 0x0D, CHR 0x0A]) = Inr [] \<and>
   compileAndMatch ''_:4'' [] ''dead'' = Inr [] \<and>
   compileAndMatch (''N/int,'' @ [CHR 0x0D, CHR 0x0A] @ '',_:N'') [] (''4'' @ [CHR 0x0D, CHR 0x0A] @ ''beaf'') = Inr [''4''] \<and>
   compileAndMatch (''N/int,'' @ [CHR 0x0D, CHR 0x0A] @ '',_:N:0'') [] [] =
     Inl (Returned \<lparr>Code = ErrParseColonExpected, Pos = 10, Cause = None\<rparr>) \<and>
   compileAndMatch (''N/int,'' @ [CHR 0x0D, CHR 0x0A] @ '',_:M'') [] [] =
     Inl (Returned \<lparr>Code = ErrParseVariableNotDefined ''M'', Pos = 10, Cause = None\<rparr>) \<and>
   compileAndMatch (''Number/int,'' @ [CHR 0x0D, CHR 0x0A] @ '',_:Number'') [] (''4'' @ [CHR 0x0D, CHR 0x0A] @ ''bea'') =
     Inl (Returned \<lparr>Code = ErrVarNotMuch, Pos = 15, Cause = Some EOF\<rparr>) \<and>
   compileAndMatch (''V/bin,'' @ [CHR 0x0D, CHR 0x0A] @ '',N/int:2,v2/bin:N,'' @ [CHR 0x0D, CHR 0x0A])
       [WithMaxVariableSize 32]
       (''foobarbuzz'' @ [CHR 0x0D, CHR 0x0A] @ ''16abcdef0123456789'' @ [CHR 0x0D, CHR 0x0A]) =
     Inr [''foobarbuzz'', ''16'', ''abcdef0123456789''] \<and>
   compileAndMatch (''V/bin:3,N/int:1,'' @ [CHR 0x09] @ '',N2/int:N,var/bin:N2'') []
       (''abc1'' @ [CHR 0x09] @ ''8deadbeaf'') =
     Inr [''abc'', ''1'', ''8'', ''deadbeaf''] \<and>
   compileAndMatch ''N/int'' [] [] =
     Inl (Returned \<lparr>Code = ErrParseSuffixExpected, Pos = 1, Cause = None\<rparr>) \<and>
   compileAndMatch ''N/int/bin'' [] [] =
     Inl (Returned \<lparr>Code = ErrParseInvalidSlash, Pos = 1, Cause = None\<rparr>) \<and>
   compileAndMatch ''hoge,N/bi'' [] [] =
     Inl (Returned \<lparr>Code = ErrParseInvalidType, Pos = 6, Cause = None\<rparr>) \<and>
   compileAndMatch ''foo,N/inte'' [] [] =
     Inl (Returned \<lparr>Code = ErrParseInvalidType, Pos = 5, Cause = None\<rparr>) \<and>
   compileAndMatch ''foo,N/binary'' [] [] =
     Inl (Returned \<lparr>Code = ErrParseInvalidType, Pos = 5, Cause = None\<rparr>) \<and>
   compileAndMatch ''foo,N/foo'' [] [] =
     Inl (Returned \<lparr>Code = ErrParseInvalidType, Pos = 5, Cause = None\<rparr>) \<and>
   compileAndMatch (''N/int,'' @ [CHR 0x0D, CHR 0x0A] @ '',foo/int:M'') [] [] =
     Inl (Returned \<lparr>Code = ErrParseVariableNotDefined ''M'', Pos = 10, Cause = None\<rparr>) \<and>
   compileAndMatch (''N/int,'' @ [CHR 0x0D, CHR 0x0A] @ '',foo/bin:Num'') [] [] =
     Inl (Returned \<lparr>Code = ErrParseVariableNotDefined ''Num'', Pos = 10, Cause = None\<rparr>)"
  by code_simp

text \<open>
  The tables of \<^verbatim>\<open>TestGenInstConst\<close>, \<^verbatim>\<open>TestGenInstVarWithSize\<close>,
  \<^verbatim>\<open>TestGenInstVarWithoutSize\<close>, \<^verbatim>\<open>TestGenInstIntWithSize\<close> and
  \<^verbatim>\<open>TestGenInstIntWithoutSize\<close>: the result of each instruction, and the cell the
  integer instructions write (the size in array 0, the output in array 1 when the test
  has both).
\<close>

theorem TestGenInst:
  "invokeInst (genInstConst 0 ''foo'') [] ''foo'' = (Inr None, []) \<and>
   invokeInst (genInstConst 1 ''bar'') [] ''foo'' =
     (Inl (Returned \<lparr>Code = ErrConstNotMuch, Pos = 1, Cause = None\<rparr>), []) \<and>
   invokeInst (genInstConst 2 ''buzz'') [] ''foo'' =
     (Inl (Returned \<lparr>Code = ErrConstNotMuch, Pos = 2, Cause = Some EOF\<rparr>), []) \<and>
   invokeInst (genInstVarWithSize 0 (0, 0) True) [[3]] ''foo'' = (Inr (Some ''foo''), [[3]]) \<and>
   invokeInst (genInstVarWithSize 1 (0, 0) False) [[3]] ''foo'' = (Inr None, [[3]]) \<and>
   invokeInst (genInstVarWithSize 2 (0, 0) True) [[4]] ''foo'' =
     (Inl (Returned \<lparr>Code = ErrVarNotMuch, Pos = 2, Cause = Some EOF\<rparr>), [[4]]) \<and>
   invokeInst (genInstVarWithoutSize 0 ''bar'' True 1024) [] ''foobar'' = (Inr (Some ''foo''), []) \<and>
   invokeInst (genInstVarWithoutSize 1 ''bar'' False 1024) [] ''foobar'' = (Inr None, []) \<and>
   invokeInst (genInstVarWithoutSize 2 ''buzz'' True 1024) [] ''foobar'' =
     (Inl (Returned \<lparr>Code = ErrVarNotMuch, Pos = 2, Cause = Some EOF\<rparr>), []) \<and>
   invokeInst (genInstVarWithoutSize 3 ''buzz'' True 1024) [] ''foobarfoobarfoobarbuzz'' =
     (Inr (Some ''foobarfoobarfoobar''), []) \<and>
   invokeInst (genInstVarWithoutSize 4 ''buzz'' True 16) [] ''foobarfoobarfoobarbuzz'' =
     (Inl (Returned \<lparr>Code = ErrVarExceedMaxSize 16, Pos = 4, Cause = None\<rparr>), []) \<and>
   invokeInst (genInstIntWithSize 0 (0, 0) (1, 0)) [[3], [0]] ''123'' =
     (Inr (Some ''123''), [[3], [123]]) \<and>
   invokeInst (genInstIntWithSize 1 (0, 0) (1, 0)) [[3], [0]] ''foo'' =
     (Inl (Returned \<lparr>Code = ErrIntVarNotMuch, Pos = 1, Cause = Some (NumError ''foo'' ErrSyntax)\<rparr>),
      [[3], [0]]) \<and>
   invokeInst (genInstIntWithSize 2 (0, 0) (1, 0)) [[4], [0]] ''foo'' =
     (Inl (Returned \<lparr>Code = ErrIntVarNotMuch, Pos = 2, Cause = Some EOF\<rparr>), [[4], [0]]) \<and>
   invokeInst (genInstIntWithoutSize 0 ''bar'' (0, 0) 1024) [[0]] ''789bar'' =
     (Inr (Some ''789''), [[789]]) \<and>
   invokeInst (genInstIntWithoutSize 1 ''bar'' (0, 0) 1024) [[0]] ''foobar'' =
     (Inl (Returned \<lparr>Code = ErrIntVarNotMuch, Pos = 1, Cause = Some (NumError ''foo'' ErrSyntax)\<rparr>),
      [[0]]) \<and>
   invokeInst (genInstIntWithoutSize 2 ''buzz'' (0, 0) 1024) [[0]] ''foobar'' =
     (Inl (Returned \<lparr>Code = ErrIntVarNotMuch, Pos = 2, Cause = Some EOF\<rparr>), [[0]]) \<and>
   invokeInst (genInstIntWithoutSize 3 ''foobarbuzz'' (0, 0) 1024) [[0]] ''1234567890foobarbuzz'' =
     (Inr (Some ''1234567890''), [[1234567890]]) \<and>
   invokeInst (genInstIntWithoutSize 4 ''foobarbuzz'' (0, 0) 16) [[0]] ''1234567890foobarbuzz'' =
     (Inl (Returned \<lparr>Code = ErrVarExceedMaxSize 16, Pos = 4, Cause = None\<rparr>), [[0]])"
  by code_simp

section \<open>MatchReader, instruction by instruction\<close>

text \<open>An instruction that succeeds returns a non-nil buffer exactly when it captures.
  The captures \<^verbatim>\<open>MatchReader\<close> has gathered do not change what the instructions that
  follow do, so the run of a list of instructions is the run of its first part followed
  by the run of the rest.\<close>

lemma runInst_capturing:
  "runInst inst h r = (Inr b, h', r') \<Longrightarrow> (b \<noteq> None) = capturing inst"
  by (cases inst) (auto split: prod.splits sum.splits if_splits)

lemma matchLoop_acc:
  "matchLoop is h r acc =
     (case matchLoop is h r [] of
        (Inl f, h', r') \<Rightarrow> (Inl f, h', r')
      | (Inr c, h', r') \<Rightarrow> (Inr (acc @ c), h', r'))"
proof (induction "is" arbitrary: h r acc)
  case Nil
  then show ?case by simp
next
  case (Cons i "is")
  show ?case
  proof (cases "runInst i h r")
    case (fields res h1 r1)
    show ?thesis
    proof (cases res)
      case (Inl f)
      with fields show ?thesis by simp
    next
      case (Inr b)
      show ?thesis
        using fields Inr
          Cons.IH [of h1 r1 "case b of None \<Rightarrow> acc | Some x \<Rightarrow> acc @ [x]"]
          Cons.IH [of h1 r1 "case b of None \<Rightarrow> [] | Some x \<Rightarrow> [x]"]
        by (auto split: prod.splits sum.splits option.splits)
    qed
  qed
qed

lemma matchLoop_append:
  "matchLoop (a @ b) h r [] =
     (case matchLoop a h r [] of
        (Inl f, h1, r1) \<Rightarrow> (Inl f, h1, r1)
      | (Inr ca, h1, r1) \<Rightarrow>
          (case matchLoop b h1 r1 [] of
             (Inl f, h2, r2) \<Rightarrow> (Inl f, h2, r2)
           | (Inr cb, h2, r2) \<Rightarrow> (Inr (ca @ cb), h2, r2)))"
proof (induction a arbitrary: h r)
  case Nil
  then show ?case by (auto split: prod.splits sum.splits)
next
  case (Cons i a)
  show ?case
  proof (cases "runInst i h r")
    case (fields res h1 r1)
    show ?thesis
    proof (cases res)
      case (Inl f)
      with fields show ?thesis by simp
    next
      case (Inr x)
      let ?acc = "case x of None \<Rightarrow> [] | Some y \<Rightarrow> [y]"
      have 1: "matchLoop ((i # a) @ b) h r [] = matchLoop (a @ b) h1 r1 ?acc"
        using fields Inr by (cases x) simp_all
      have 2: "matchLoop (i # a) h r [] = matchLoop a h1 r1 ?acc"
        using fields Inr by (cases x) simp_all
      show ?thesis
        unfolding 1 2
        using matchLoop_acc [of "a @ b" h1 r1 ?acc] matchLoop_acc [of a h1 r1 ?acc] Cons.IH [of h1 r1]
        by (auto split: prod.splits sum.splits)
    qed
  qed
qed

lemma matchLoop_count:
  "matchLoop is h r [] = (Inr caps, h', r') \<Longrightarrow> length caps = length (filter capturing is)"
proof (induction "is" arbitrary: h r caps)
  case Nil
  then show ?case by simp
next
  case (Cons i "is")
  obtain res h1 r1 where ri: "runInst i h r = (res, h1, r1)" by (cases "runInst i h r") auto
  with Cons.prems obtain b where b: "res = Inr b" by (cases res) auto
  let ?acc = "case b of None \<Rightarrow> [] | Some y \<Rightarrow> [y]"
  from Cons.prems ri b have m: "matchLoop is h1 r1 ?acc = (Inr caps, h', r')"
    by (cases b) simp_all
  then obtain c where c: "matchLoop is h1 r1 [] = (Inr c, h', r')" and caps: "caps = ?acc @ c"
    using matchLoop_acc [of "is" h1 r1 ?acc] by (auto split: prod.splits sum.splits)
  have "length ?acc = (if capturing i then 1 else 0)"
    using runInst_capturing [of i h r b h1 r1] ri b by (auto split: option.splits)
  with Cons.IH [OF c] caps show ?case by simp
qed

lemma matchLoop_prefix:
  assumes "matchLoop is h r [] = (Inr caps, h', r')" and "k \<le> length is"
  shows "\<exists>h1 r1. matchLoop (take k is) h r [] =
            (Inr (take (length (filter capturing (take k is))) caps), h1, r1)"
proof -
  have "matchLoop (take k is @ drop k is) h r [] = (Inr caps, h', r')" using assms(1) by simp
  then obtain ca h1 r1 cb where a: "matchLoop (take k is) h r [] = (Inr ca, h1, r1)"
    and "matchLoop (drop k is) h1 r1 [] = (Inr cb, h', r')" and c: "caps = ca @ cb"
    unfolding matchLoop_append by (auto split: prod.splits sum.splits)
  from matchLoop_count [OF a] c a show ?thesis by simp
qed

section \<open>Sized instructions and the size cell\<close>

text \<open>
  C8. A \<^verbatim>\<open>genInstVarWithSize\<close> instruction whose size cell holds 0 succeeds for every
  reader: the reader comes back as it was, with the same count of \<^verbatim>\<open>Read\<close> calls
  (no read is made), memory is unchanged, and the result is the empty, non-nil buffer
  when the instruction captures and nil when it does not. In \<^verbatim>\<open>MatchReader\<close> the
  capturing instruction adds the empty capture as an entry of the capture list, the
  other adds none, and the run goes on with the same memory and reader.
\<close>

theorem var_sized_zero_reads_nothing:
  "deref h sz = 0 \<Longrightarrow>
   runInst (genInstVarWithSize ps sz capture) h r =
     (Inr (if capture then Some [] else None), h, r) \<and>
   matchLoop (genInstVarWithSize ps sz capture # rest) h r caps =
     matchLoop rest h r (if capture then caps @ [[]] else caps)"
  by (simp add: readLoop.simps)

theorem var_sized_zero_reads_nothing_witness:
  "deref [[0]] (0, 0) = 0 \<and>
   Compile gcGrowslice ''V/bin:0'' [] =
     Inr (\<lparr>instSlice = [genInstVarWithSize 1 (0, 0) True],
           intBinds = \<lparr>arr = 0, len = 1, cap = 1\<rparr>, maxVarSize = 4096\<rparr>, [[0]]) \<and>
   runInst (genInstVarWithSize 1 (0, 0) True) [[0]] (NewReader ''abc'') =
     (Inr (Some []), [[0]], NewReader ''abc'') \<and>
   MatchReader \<lparr>instSlice = [genInstVarWithSize 1 (0, 0) True],
                intBinds = \<lparr>arr = 0, len = 1, cap = 1\<rparr>, maxVarSize = 4096\<rparr>
     [[0]] (NewReader ''abc'') = (Inr [[]], [[0]], NewReader ''abc'')"
proof -
  have c: "Compile gcGrowslice ''V/bin:0'' [] =
     Inr (\<lparr>instSlice = [genInstVarWithSize 1 (0, 0) True],
           intBinds = \<lparr>arr = 0, len = 1, cap = 1\<rparr>, maxVarSize = 4096\<rparr>, [[0]])"
    by code_simp
  from c var_sized_zero_reads_nothing [of "[[0]]" "(0, 0)" 1 True "NewReader ''abc''" "[]" "[]"]
  show ?thesis by (simp add: deref_def MatchReader_def)
qed

text \<open>
  C9, as the claim states it, fails: the size cell of \<^verbatim>\<open>_:-5\<close> holds -5, and running
  the instruction is not a rejection with \<^verbatim>\<open>ErrVarNotMuch\<close>. The same holds for the
  integer instruction.
\<close>

theorem negative_size_not_rejected_counterexample:
  "Compile gcGrowslice ''_:-5'' [] =
     Inr (\<lparr>instSlice = [genInstVarWithSize 1 (0, 0) False],
           intBinds = \<lparr>arr = 0, len = 1, cap = 1\<rparr>, maxVarSize = 4096\<rparr>, [[- 5]]) \<and>
   deref [[- 5]] (0, 0) < 0 \<and>
   \<not> rejectedWith ErrVarNotMuch
       (fst (runInst (genInstVarWithSize 1 (0, 0) False) [[- 5]] (NewReader ''abc''))) \<and>
   \<not> rejectedWith ErrVarNotMuch
       (fst (runInst (genInstIntWithSize 1 (0, 0) (0, 1)) [[- 5, 0]] (NewReader ''abc'')))"
  by code_simp

text \<open>
  C9, amended. A sized instruction (\<^verbatim>\<open>genInstVarWithSize\<close> or
  \<^verbatim>\<open>genInstIntWithSize\<close>) whose size cell holds a negative value does not return an
  error value: \<^verbatim>\<open>make([]byte, *size)\<close> panics before any read, with memory and reader
  untouched, and \<^verbatim>\<open>MatchReader\<close> panics when it reaches the instruction, whatever the
  instructions before it captured and whatever follows.
\<close>

theorem negative_size_panics:
  assumes "deref h sz < 0"
  shows "runInst (genInstVarWithSize ps sz capture) h r = (Inl Panic, h, r) \<and>
         runInst (genInstIntWithSize ps sz outSize) h r = (Inl Panic, h, r) \<and>
         (\<forall>inst pre rest h0 r0 caps.
            (inst = genInstVarWithSize ps sz capture \<or> inst = genInstIntWithSize ps sz outSize) \<and>
            matchLoop pre h0 r0 [] = (Inr caps, h, r) \<longrightarrow>
            matchLoop (pre @ inst # rest) h0 r0 [] = (Inl Panic, h, r))"
proof (intro conjI allI impI)
  show v: "runInst (genInstVarWithSize ps sz capture) h r = (Inl Panic, h, r)"
    using assms by simp
  show i: "runInst (genInstIntWithSize ps sz outSize) h r = (Inl Panic, h, r)"
    using assms by simp
  fix inst pre rest h0 r0 caps
  assume a: "(inst = genInstVarWithSize ps sz capture \<or> inst = genInstIntWithSize ps sz outSize) \<and>
            matchLoop pre h0 r0 [] = (Inr caps, h, r)"
  then have "runInst inst h r = (Inl Panic, h, r)" using v i by blast
  then have "matchLoop (inst # rest) h r [] = (Inl Panic, h, r)" by simp
  with a show "matchLoop (pre @ inst # rest) h0 r0 [] = (Inl Panic, h, r)"
    by (simp add: matchLoop_append)
qed

theorem negative_size_panics_witness:
  "deref [[- 5]] (0, 0) < 0 \<and>
   Compile gcGrowslice ''N/int,;,_:N'' [] =
     Inr (\<lparr>instSlice = [genInstIntWithoutSize 7 '';'' (0, 0) 4096] @
                        genInstVarWithSize 9 (0, 0) False # [],
           intBinds = \<lparr>arr = 0, len = 1, cap = 1\<rparr>, maxVarSize = 4096\<rparr>, [[0]]) \<and>
   matchLoop ([genInstIntWithoutSize 7 '';'' (0, 0) 4096] @ genInstVarWithSize 9 (0, 0) False # [])
     [[0]] (NewReader ''-5;abc'') [] =
     (Inl Panic, [[- 5]], \<lparr>chunks = [''abc''], calls = 3\<rparr>) \<and>
   runInst (genInstIntWithSize 9 (0, 0) (0, 1)) [[- 5]] \<lparr>chunks = [''abc''], calls = 3\<rparr> =
     (Inl Panic, [[- 5]], \<lparr>chunks = [''abc''], calls = 3\<rparr>)"
proof -
  let ?r = "\<lparr>chunks = [''abc''], calls = 3\<rparr>"
  have d: "deref [[- 5]] (0, 0) < 0" by (simp add: deref_def)
  have c: "Compile gcGrowslice ''N/int,;,_:N'' [] =
     Inr (\<lparr>instSlice = [genInstIntWithoutSize 7 '';'' (0, 0) 4096] @
                        genInstVarWithSize 9 (0, 0) False # [],
           intBinds = \<lparr>arr = 0, len = 1, cap = 1\<rparr>, maxVarSize = 4096\<rparr>, [[0]])"
    by code_simp
  have p: "matchLoop [genInstIntWithoutSize 7 '';'' (0, 0) 4096] [[0]] (NewReader ''-5;abc'') [] =
     (Inr [''-5''], [[- 5]], ?r)"
    by code_simp
  note T = negative_size_panics [OF d, of 9 False ?r "(0, 1)"]
  from T have i: "runInst (genInstIntWithSize 9 (0, 0) (0, 1)) [[- 5]] ?r = (Inl Panic, [[- 5]], ?r)"
    by blast
  from T p have m: "matchLoop ([genInstIntWithoutSize 7 '';'' (0, 0) 4096] @ genInstVarWithSize 9 (0, 0) False # [])
     [[0]] (NewReader ''-5;abc'') [] = (Inl Panic, [[- 5]], ?r)"
    by blast
  from d c m i show ?thesis by (intro conjI)
qed

section \<open>Back-references and the backing array of intBinds\<close>

text \<open>
  C1 fails on the code. In \<^verbatim>\<open>N/int,;,_:1,_:N\<close> the integer instruction captures the
  address of cell 0 while \<^verbatim>\<open>intBinds\<close> has capacity 1 (array 0). The field \<^verbatim>\<open>_:1\<close>
  appends a cell: the slice moves to array 1, where cell 0 is a copy holding 0. The field
  \<^verbatim>\<open>_:N\<close> then takes \<^verbatim>\<open>&matcher.intBinds[0]\<close> in array 1. On the input
  \<^verbatim>\<open>3;xabc\<close> the integer 3 is stored in array 0, the last instruction reads 0 from
  array 1 and consumes no byte: \<^verbatim>\<open>abc\<close> is left unread and the match succeeds.
  Without the field \<^verbatim>\<open>_:1\<close> both pointers are in array 0, and \<^verbatim>\<open>_:N\<close> consumes the
  three bytes \<^verbatim>\<open>xab\<close>.
\<close>

theorem backref_reads_stale_cell:
  "Compile gcGrowslice ''N/int,;,_:1,_:N'' [] =
     Inr (\<lparr>instSlice = [genInstIntWithoutSize 7 '';'' (0, 0) 4096,
                        genInstVarWithSize 9 (1, 1) False,
                        genInstVarWithSize 13 (1, 0) False],
           intBinds = \<lparr>arr = 1, len = 2, cap = 2\<rparr>, maxVarSize = 4096\<rparr>,
          [[0], [0, 1]]) \<and>
   MatchReader
     \<lparr>instSlice = [genInstIntWithoutSize 7 '';'' (0, 0) 4096,
                  genInstVarWithSize 9 (1, 1) False,
                  genInstVarWithSize 13 (1, 0) False],
      intBinds = \<lparr>arr = 1, len = 2, cap = 2\<rparr>, maxVarSize = 4096\<rparr>
     [[0], [0, 1]] (NewReader ''3;xabc'') =
     (Inr [''3''], [[3], [0, 1]], \<lparr>chunks = [''abc''], calls = 3\<rparr>) \<and>
   Compile gcGrowslice ''N/int,;,_:N'' [] =
     Inr (\<lparr>instSlice = [genInstIntWithoutSize 7 '';'' (0, 0) 4096,
                        genInstVarWithSize 9 (0, 0) False],
           intBinds = \<lparr>arr = 0, len = 1, cap = 1\<rparr>, maxVarSize = 4096\<rparr>, [[0]]) \<and>
   MatchReader
     \<lparr>instSlice = [genInstIntWithoutSize 7 '';'' (0, 0) 4096,
                  genInstVarWithSize 9 (0, 0) False],
      intBinds = \<lparr>arr = 0, len = 1, cap = 1\<rparr>, maxVarSize = 4096\<rparr>
     [[0]] (NewReader ''3;xabc'') =
     (Inr [''3''], [[3]], \<lparr>chunks = [''c''], calls = 3\<rparr>)"
  by code_simp

section \<open>Colons in a directive\<close>

text \<open>
  C3 fails on the code for binding directives. A blind field with more than one colon
  is refused with \<^verbatim>\<open>ErrParseColonExpected\<close> (line 131), but the binding branch tests
  \<^verbatim>\<open>len(subTokens) == 2\<close> and sends every other count, three tokens included, to the
  branch written for \<^verbatim>\<open>var/bin\<close>: \<^verbatim>\<open>V/bin:1:2\<close> compiles as \<^verbatim>\<open>V/bin\<close>, and the
  next field is its suffix.
\<close>

theorem bind_two_colons_accepted:
  "Compile gcGrowslice ''V/bin:1:2,x'' [] =
     Inr (\<lparr>instSlice = [genInstVarWithoutSize 11 ''x'' True 4096],
           intBinds = nilSlice, maxVarSize = 4096\<rparr>, []) \<and>
   Compile gcGrowslice ''N/int:1:2,x'' [] =
     Inr (\<lparr>instSlice = [genInstIntWithoutSize 11 ''x'' (0, 0) 4096],
           intBinds = \<lparr>arr = 0, len = 1, cap = 1\<rparr>, maxVarSize = 4096\<rparr>, [[0]]) \<and>
   Compile gcGrowslice ''_:1:2,x'' [] =
     Inl (Returned \<lparr>Code = ErrParseColonExpected, Pos = 1, Cause = None\<rparr>)"
  by code_simp

section \<open>Fixed-size reads\<close>

text \<open>What the read loop returns depends on the bytes of the reader only, not on their
  chunks: the buffer filled with the first \<open>l - i\<close> bytes when there are that many, and
  \<^verbatim>\<open>io.EOF\<close> with the reader exhausted otherwise.\<close>

lemma readLoop_enough:
  "length b = l \<Longrightarrow> i \<le> l \<Longrightarrow> l - i \<le> length (concat (chunks r)) \<Longrightarrow>
   \<exists>r'. readLoop r b i l = (Inr (take i b @ take (l - i) (concat (chunks r))), r') \<and>
        concat (chunks r') = drop (l - i) (concat (chunks r))"
proof (induction r b i l rule: readLoop.induct)
  case (1 r b i l)
  show ?case
  proof (cases "i < l")
    case False
    with "1.prems" show ?thesis by (simp add: readLoop.simps)
  next
    case True
    show ?thesis
    proof (cases "chunks r")
      case Nil
      with True "1.prems" show ?thesis by simp
    next
      case (Cons c cs)
      show ?thesis
      proof (cases "length c \<le> l - i")
        case le: True
        let ?r' = "\<lparr>chunks = cs, calls = calls r + 1\<rparr>"
        let ?b' = "take i b @ c @ drop (i + length c) b"
        have rd: "Read r (l - i) = (Inr c, ?r')"
          using Cons le by (simp add: Read_def)
        have "\<exists>r''. readLoop ?r' ?b' (i + length c) l =
                 (Inr (take (i + length c) ?b' @ take (l - (i + length c)) (concat (chunks ?r'))), r'') \<and>
               concat (chunks r'') = drop (l - (i + length c)) (concat (chunks ?r'))"
          using "1.prems" le Cons True
          by (intro "1.IH" [OF True rd [symmetric] refl]) auto
        then obtain r'' where
          a: "readLoop ?r' ?b' (i + length c) l =
                 (Inr (take (i + length c) ?b' @ take (l - (i + length c)) (concat cs)), r'')"
          and b: "concat (chunks r'') = drop (l - (i + length c)) (concat cs)"
          by auto
        have "readLoop r b i l = readLoop ?r' ?b' (i + length c) l"
          using True rd by (subst readLoop.simps) simp
        with a b "1.prems" le Cons True show ?thesis by auto
      next
        case gt: False
        let ?k = "l - i"
        let ?r' = "\<lparr>chunks = drop ?k c # cs, calls = calls r + 1\<rparr>"
        let ?b' = "take i b @ take ?k c @ drop (i + length (take ?k c)) b"
        have rd: "Read r (l - i) = (Inr (take ?k c), ?r')"
          using Cons gt by (simp add: Read_def)
        have "readLoop r b i l = readLoop ?r' ?b' (i + length (take ?k c)) l"
          using True rd by (subst readLoop.simps) simp
        also have "\<dots> = (Inr ?b', ?r')"
          using gt True by (subst readLoop.simps) (simp add: min_def)
        finally show ?thesis
          using "1.prems" gt Cons True by (auto simp: min_def)
      qed
    qed
  qed
qed

lemma readLoop_short:
  "length (concat (chunks r)) < l - i \<Longrightarrow>
   \<exists>r'. readLoop r b i l = (Inl EOF, r') \<and> chunks r' = []"
proof (induction r b i l rule: readLoop.induct)
  case (1 r b i l)
  then have lt: "i < l" by simp
  show ?case
  proof (cases "chunks r")
    case Nil
    then show ?thesis using lt by (subst readLoop.simps) (simp add: Read_def)
  next
    case (Cons c cs)
    with "1.prems" have le: "length c \<le> l - i" by simp
    let ?r' = "\<lparr>chunks = cs, calls = calls r + 1\<rparr>"
    let ?b' = "take i b @ c @ drop (i + length c) b"
    have rd: "Read r (l - i) = (Inr c, ?r')"
      using Cons le by (simp add: Read_def)
    have "\<exists>r''. readLoop ?r' ?b' (i + length c) l = (Inl EOF, r'') \<and> chunks r'' = []"
      using "1.prems" Cons by (intro "1.IH" [OF lt rd [symmetric] refl]) auto
    moreover have "readLoop r b i l = readLoop ?r' ?b' (i + length c) l"
      using lt rd by (subst readLoop.simps) simp
    ultimately show ?thesis by simp
  qed
qed


lemma readLoop_result:
  assumes "length b = l"
  shows "fst (readLoop r b 0 l) = (if l \<le> length (unread r) then Inr (take l (unread r)) else Inl EOF)"
    and "unread (snd (readLoop r b 0 l)) = (if l \<le> length (unread r) then drop l (unread r) else [])"
proof -
  show "fst (readLoop r b 0 l) = (if l \<le> length (unread r) then Inr (take l (unread r)) else Inl EOF)"
  proof (cases "l \<le> length (unread r)")
    case True
    with assms readLoop_enough [of b l 0 r] show ?thesis by (auto simp: unread_def)
  next
    case False
    with readLoop_short [of r l 0 b] show ?thesis by (auto simp: unread_def)
  qed
  show "unread (snd (readLoop r b 0 l)) = (if l \<le> length (unread r) then drop l (unread r) else [])"
  proof (cases "l \<le> length (unread r)")
    case True
    with assms readLoop_enough [of b l 0 r] show ?thesis by (auto simp: unread_def)
  next
    case False
    with readLoop_short [of r l 0 b] show ?thesis by (auto simp: unread_def)
  qed
qed

lemma unread_NewReader: "unread (NewReader s) = s"
  by (simp add: unread_def NewReader_def)

lemma readLoop_chunking:
  assumes "length b = l"
  shows "fst (readLoop r b 0 l) = fst (readLoop (NewReader (unread r)) b 0 l)"
    and "unread (snd (readLoop r b 0 l)) = unread (snd (readLoop (NewReader (unread r)) b 0 l))"
  using assms by (simp_all add: readLoop_result unread_NewReader)

text \<open>
  C7. For a fixed-size instruction (\<^verbatim>\<open>genInstConst\<close>, \<^verbatim>\<open>genInstVarWithSize\<close>,
  \<^verbatim>\<open>genInstIntWithSize\<close>), any memory and any reader, whatever the chunks in which
  the reader delivers its bytes (one byte per read and empty reads included, with
  \<^verbatim>\<open>io.EOF\<close> once the bytes are exhausted), the run has the same result (the same
  capture or the same fault), leaves the same memory and the same bytes unread as the run
  on a reader that holds the same bytes in one chunk.
\<close>

theorem short_read_tolerance:
  "fixedSize inst \<Longrightarrow>
   observed (runInst inst h r) = observed (runInst inst h (NewReader (unread r)))"
proof (cases inst)
  case (genInstConst ps match)
  have a: "fst (readLoop r (replicate (length match) (CHR 0x00)) 0 (length match)) = fst (readLoop (NewReader (unread r)) (replicate (length match) (CHR 0x00)) 0 (length match))"
    and b: "unread (snd (readLoop r (replicate (length match) (CHR 0x00)) 0 (length match))) = unread (snd (readLoop (NewReader (unread r)) (replicate (length match) (CHR 0x00)) 0 (length match)))"
    by (rule readLoop_chunking, simp)+
  show ?thesis using a b genInstConst
    by (auto simp: observed_def split: prod.splits sum.splits)
next
  case (genInstVarWithSize ps sz capture)
  let ?n = "nat (deref h sz)"
  have a: "fst (readLoop r (replicate ?n (CHR 0x00)) 0 ?n) = fst (readLoop (NewReader (unread r)) (replicate ?n (CHR 0x00)) 0 ?n)"
    and b: "unread (snd (readLoop r (replicate ?n (CHR 0x00)) 0 ?n)) = unread (snd (readLoop (NewReader (unread r)) (replicate ?n (CHR 0x00)) 0 ?n))"
    by (rule readLoop_chunking, simp)+
  show ?thesis using a b genInstVarWithSize
    by (auto simp: observed_def unread_NewReader split: prod.splits sum.splits)
next
  case (genInstIntWithSize ps sz outSize)
  let ?n = "nat (deref h sz)"
  have a: "fst (readLoop r (replicate ?n (CHR 0x00)) 0 ?n) = fst (readLoop (NewReader (unread r)) (replicate ?n (CHR 0x00)) 0 ?n)"
    and b: "unread (snd (readLoop r (replicate ?n (CHR 0x00)) 0 ?n)) = unread (snd (readLoop (NewReader (unread r)) (replicate ?n (CHR 0x00)) 0 ?n))"
    by (rule readLoop_chunking, simp)+
  show ?thesis using a b genInstIntWithSize
    by (auto simp: observed_def unread_NewReader split: prod.splits sum.splits)
qed (simp_all add: fixedSize_def)

theorem short_read_tolerance_witness:
  "fixedSize (genInstIntWithSize 1 (0, 0) (0, 1)) \<and>
   observed (runInst (genInstIntWithSize 1 (0, 0) (0, 1)) [[2, 0]] \<lparr>chunks = [''4'', ''2'', ''x''], calls = 0\<rparr>) =
   observed (runInst (genInstIntWithSize 1 (0, 0) (0, 1)) [[2, 0]] (NewReader ''42x'')) \<and>
   observed (runInst (genInstIntWithSize 1 (0, 0) (0, 1)) [[2, 0]] (NewReader ''42x'')) = (Inr (Some ''42''), [[2, 42]], ''x'')"
  using short_read_tolerance [of "genInstIntWithSize 1 (0, 0) (0, 1)" "[[2, 0]]" "\<lparr>chunks = [''4'', ''2'', ''x''], calls = 0\<rparr>"]
  by (simp add: fixedSize_def unread_def) code_simp

section \<open>A back-reference through one cell\<close>

lemma deref_store: "validPtr h p \<Longrightarrow> deref (store h p x) p = x"
  by (simp add: deref_def store_def validPtr_def)

lemma int_inst_stores:
  assumes "inst = genInstIntWithoutSize ps sfx p mx \<or> inst = genInstIntWithSize ps sz p"
    and "runInst inst h r = (Inr b, h1, r1)"
  shows "\<exists>digits v. b = Some digits \<and> ParseInt digits = Inr v \<and> h1 = store h p v"
  using assms by (auto split: prod.splits sum.splits if_splits)

lemma var_sized_consumes:
  assumes "runInst (genInstVarWithSize ps p capture) h r = (Inr c, h', r')"
  shows "0 \<le> deref h p \<and> unread r = take (nat (deref h p)) (unread r) @ unread r' \<and>
         length (take (nat (deref h p)) (unread r)) = nat (deref h p) \<and>
         c = (if capture then Some (take (nat (deref h p)) (unread r)) else None) \<and> h' = h"
proof -
  let ?n = "nat (deref h p)"
  let ?b = "replicate ?n (CHR 0x00)"
  from assms have nn: "0 \<le> deref h p" by (auto split: if_splits)
  obtain res r1 where rl: "readLoop r ?b 0 ?n = (res, r1)" by (cases "readLoop r ?b 0 ?n") auto
  with assms nn obtain bytes where res: "res = Inr bytes" and r1: "r1 = r'"
    and c: "c = (if capture then Some bytes else None)" and h: "h' = h"
    by (auto split: sum.splits)
  have "length ?b = ?n" by simp
  note R = readLoop_result [OF this, of r]
  from R(1) rl res have le: "?n \<le> length (unread r)" and bytes: "bytes = take ?n (unread r)"
    by (auto split: if_splits)
  from R(2) rl r1 le have "unread r' = drop ?n (unread r)" by simp
  with nn le bytes c h show ?thesis by simp
qed

text \<open>
  What holds of a back-reference: when an integer instruction writes its cell and a
  sized binary instruction reads its size through the same address, the binary instruction
  consumes exactly as many bytes as the integer parsed, and captures them when it
  captures.
\<close>

theorem backref_same_cell:
  assumes "inst = genInstIntWithoutSize ps sfx p mx \<or> inst = genInstIntWithSize ps sz p"
    and "validPtr h p"
    and "runInst inst h r = (Inr b, h1, r1)"
    and "runInst (genInstVarWithSize ps' p capture) h1 r1 = (Inr c, h2, r2)"
  shows "\<exists>digits v taken.
           b = Some digits \<and> ParseInt digits = Inr v \<and> deref h1 p = v \<and> 0 \<le> v \<and>
           unread r1 = taken @ unread r2 \<and> int (length taken) = v \<and>
           c = (if capture then Some taken else None)"
proof -
  from int_inst_stores [OF assms(1,3)] obtain digits v where
    b: "b = Some digits" and pi: "ParseInt digits = Inr v" and h1: "h1 = store h p v"
    by blast
  have d: "deref h1 p = v" using h1 assms(2) by (simp add: deref_store)
  from var_sized_consumes [OF assms(4)] d
  have "0 \<le> v" "unread r1 = take (nat v) (unread r1) @ unread r2"
    "length (take (nat v) (unread r1)) = nat v"
    "c = (if capture then Some (take (nat v) (unread r1)) else None)"
    by simp_all
  with b pi d have "b = Some digits \<and> ParseInt digits = Inr v \<and> deref h1 p = v \<and> 0 \<le> v \<and>
           unread r1 = take (nat v) (unread r1) @ unread r2 \<and> int (length (take (nat v) (unread r1))) = v \<and>
           c = (if capture then Some (take (nat v) (unread r1)) else None)"
    by simp
  then show ?thesis by blast
qed

theorem backref_same_cell_witness:
  "validPtr [[0]] (0, 0) \<and>
   runInst (genInstIntWithoutSize 7 '';'' (0, 0) 4096) [[0]] (NewReader ''3;xabc'') =
     (Inr (Some ''3''), [[3]], \<lparr>chunks = [''xabc''], calls = 2\<rparr>) \<and>
   runInst (genInstVarWithSize 9 (0, 0) True) [[3]] \<lparr>chunks = [''xabc''], calls = 2\<rparr> =
     (Inr (Some ''xab''), [[3]], \<lparr>chunks = [''c''], calls = 3\<rparr>) \<and>
   (\<exists>digits v taken.
           Some ''3'' = Some digits \<and> ParseInt digits = Inr v \<and> deref [[3]] (0, 0) = v \<and> 0 \<le> v \<and>
           unread \<lparr>chunks = [''xabc''], calls = 2\<rparr> = taken @ unread \<lparr>chunks = [''c''], calls = 3\<rparr> \<and>
           int (length taken) = v \<and> Some ''xab'' = (if True then Some taken else None))"
proof -
  have v: "validPtr [[0]] (0, 0)" by (simp add: validPtr_def)
  have a: "runInst (genInstIntWithoutSize 7 '';'' (0, 0) 4096) [[0]] (NewReader ''3;xabc'') =
     (Inr (Some ''3''), [[3]], \<lparr>chunks = [''xabc''], calls = 2\<rparr>)" by code_simp
  have b: "runInst (genInstVarWithSize 9 (0, 0) True) [[3]] \<lparr>chunks = [''xabc''], calls = 2\<rparr> =
     (Inr (Some ''xab''), [[3]], \<lparr>chunks = [''c''], calls = 3\<rparr>)" by code_simp
  from backref_same_cell [OF _ v a b, of 7 "'';''" 4096 "(0, 0)"] v a b
  show ?thesis by blast
qed

section \<open>The loop of Compile, field by field\<close>

text \<open>What \<open>appendBind\<close> and \<open>emit\<close> change in the variables of the loop.\<close>

lemma appendBind_simps:
  "len (binds (appendBind g x v)) = len (binds v) + 1"
  "instSlice (matcher (appendBind g x v)) = instSlice (matcher v)"
  "maxVarSize (matcher (appendBind g x v)) = maxVarSize (matcher v)"
  "pos (appendBind g x v) = pos v"
  "state (appendBind g x v) = state v"
  "name (appendBind g x v) = name v"
  "intBindsMap (appendBind g x v) = intBindsMap v"
  by (auto simp: appendBind_def appendInt_def binds_def Let_def split: prod.splits)

lemma emit_simps:
  "instSlice (matcher (emit i v)) = instSlice (matcher v) @ [i]"
  "maxVarSize (matcher (emit i v)) = maxVarSize (matcher v)"
  "binds (emit i v) = binds v"
  "memory (emit i v) = memory v"
  "pos (emit i v) = pos v"
  "state (emit i v) = state v"
  "name (emit i v) = name v"
  "intBindsMap (emit i v) = intBindsMap v"
  by (simp_all add: emit_def binds_def)

lemma binds_updates:
  "binds (v\<lparr>state := s\<rparr>) = binds v"
  "binds (v\<lparr>pos := p\<rparr>) = binds v"
  "binds (v\<lparr>name := n\<rparr>) = binds v"
  "binds (v\<lparr>intBindsMap := m\<rparr>) = binds v"
  by (simp_all add: binds_def)

lemmas compileVars_simps = appendBind_simps emit_simps binds_updates

lemma ReadString_comma:
  "CHR '','' \<notin> set f \<Longrightarrow> ReadString (f @ CHR '','' # rest) (CHR '','') = (f @ '','', False, rest)"
  by (induction f) auto

lemma ReadString_end:
  "CHR '','' \<notin> set f \<Longrightarrow> ReadString f (CHR '','') = (f, True, [])"
  by (induction f) auto


lemma compileLine_pos: "compileLine g v line = Inr v' \<Longrightarrow> pos v' = pos v"
  by (auto simp: compileLine_def compileBlind_def compileBind_def compileSuffix_def emit_def
                 appendBind_def parseError_def Let_def
           split: sum.splits option.splits if_splits prod.splits parseState.splits)

lemma compileLine_error:
  "compileLine g v line = Inl (Returned e) \<Longrightarrow> Pos e = pos v \<and> Cause e = None"
  by (auto simp: compileLine_def compileBlind_def compileBind_def parseError_def Let_def
           split: sum.splits option.splits if_splits)

lemma compileLoop_field_comma:
  assumes "properField f"
  shows "compileLoop g v (f @ CHR '','' # rest) =
     (case compileLine g v f of
        Inl e \<Rightarrow> Inl e
      | Inr v' \<Rightarrow> compileLoop g (v'\<lparr>pos := pos v' + (length f + 1)\<rparr>) rest)"
  using assms
  by (subst compileLoop.simps) (simp add: ReadString_comma properField_def split: sum.splits)

lemma compileLoop_field_end:
  assumes "properField f"
  shows "compileLoop g v f =
     (case compileLine g v f of
        Inl e \<Rightarrow> Inl e
      | Inr v' \<Rightarrow>
          if state v' \<noteq> nonParseState then Inl (parseError ErrParseSuffixExpected (pos v'))
          else Inr (matcher v', memory v'))"
proof -
  have "last f \<noteq> CHR '',''"
    using assms by (metis last_in_set properField_def)
  with assms show ?thesis
    by (subst compileLoop.simps) (simp add: ReadString_end properField_def split: sum.splits)
qed

lemma compileLoop_empty: "compileLoop g v [] = Inl Panic"
  by (subst compileLoop.simps) simp

lemma compileLoop_empty_field: "compileLoop g v (CHR '','' # rest) = Inl Panic"
  by (subst compileLoop.simps) simp

lemma compileLoop_fields:
  "list_all properField fs \<Longrightarrow>
   compileLoop g v (joinFields fs @ rest) =
     (case compileFields g v fs of Inl e \<Rightarrow> Inl e | Inr v' \<Rightarrow> compileLoop g v' rest)"
proof (induction fs arbitrary: v)
  case Nil
  then show ?case by (simp add: joinFields_def)
next
  case (Cons f fs)
  then have f: "properField f" and fs: "list_all properField fs" by simp_all
  have "joinFields (f # fs) @ rest = f @ CHR '','' # (joinFields fs @ rest)"
    by (simp add: joinFields_def)
  then show ?case
    using compileLoop_field_comma [OF f, of g v "joinFields fs @ rest"] Cons.IH [OF fs]
    by (simp split: sum.splits)
qed

lemma compileFields_pos:
  "compileFields g v fs = Inr v' \<Longrightarrow> pos v' = pos v + length (joinFields fs)"
proof (induction fs arbitrary: v)
  case Nil
  then show ?case by (simp add: joinFields_def)
next
  case (Cons f fs)
  then show ?case
    by (auto simp: joinFields_def split: sum.splits dest!: compileLine_pos)
qed

lemma compileFields_fail:
  "compileFields g v fs = Inl x \<Longrightarrow>
   \<exists>fs1 f fs2 v1. fs = fs1 @ f # fs2 \<and> compileFields g v fs1 = Inr v1 \<and> compileLine g v1 f = Inl x"
proof (induction fs arbitrary: v)
  case Nil
  then show ?case by simp
next
  case (Cons f fs)
  show ?case
  proof (cases "compileLine g v f")
    case (Inl e)
    with Cons.prems have "e = x" by simp
    with Inl have "f # fs = [] @ f # fs \<and> compileFields g v [] = Inr v \<and> compileLine g v f = Inl x"
      by simp
    then show ?thesis by blast
  next
    case (Inr v')
    let ?v = "v'\<lparr>pos := pos v' + (length f + 1)\<rparr>"
    from Inr Cons.prems have "compileFields g ?v fs = Inl x" by simp
    from Cons.IH [OF this] obtain fs1 f1 fs2 v1 where
      "fs = fs1 @ f1 # fs2" "compileFields g ?v fs1 = Inr v1" "compileLine g v1 f1 = Inl x"
      by blast
    with Inr have "f # fs = (f # fs1) @ f1 # fs2 \<and> compileFields g v (f # fs1) = Inr v1 \<and> compileLine g v1 f1 = Inl x"
      by simp
    then show ?thesis by blast
  qed
qed

text \<open>Every pattern is a run of proper fields, each with its comma, then a tail:
  nothing, an empty field, or a last proper field.\<close>

lemma pattern_fields:
  "\<exists>fs rest. list_all properField fs \<and> r = joinFields fs @ rest \<and>
      (rest = [] \<or> hd rest = CHR '','' \<or> properField rest)"
proof (induction "length r" arbitrary: r rule: less_induct)
  case less
  show ?case
  proof (cases "r = [] \<or> hd r = CHR '','' \<or> properField r")
    case True
    then have "list_all properField [] \<and> r = joinFields [] @ r \<and> (r = [] \<or> hd r = CHR '','' \<or> properField r)"
      by (simp add: joinFields_def)
    then show ?thesis by blast
  next
    case False
    then have ne: "r \<noteq> []" and hd: "hd r \<noteq> CHR '',''" and c: "CHR '','' \<in> set r"
      by (auto simp: properField_def)
    define f where "f = takeWhile (\<lambda>c. c \<noteq> CHR '','') r"
    define r' where "r' = tl (dropWhile (\<lambda>c. c \<noteq> CHR '','') r)"
    have dw: "dropWhile (\<lambda>c. c \<noteq> CHR '','') r \<noteq> []" using c by simp
    then have hdw: "hd (dropWhile (\<lambda>c. c \<noteq> CHR '','') r) = CHR '',''"
      using hd_dropWhile [of "\<lambda>c. c \<noteq> CHR '',''" r] by simp
    have r: "r = f @ CHR '','' # r'"
      using dw hdw takeWhile_dropWhile_id [of "\<lambda>c. c \<noteq> CHR '',''" r]
      unfolding f_def r'_def by (metis list.collapse)
    have pf: "properField f"
    proof -
      have "f \<noteq> []" using ne hd unfolding f_def by (cases r) auto
      moreover have "CHR '','' \<notin> set f" unfolding f_def by (auto dest: set_takeWhileD)
      ultimately show ?thesis by (simp add: properField_def)
    qed
    have "length r' < length r" using r by (metis add_Suc_right length_Cons length_append less_add_Suc2)
    from less [OF this] obtain fs rest where
      "list_all properField fs" "r' = joinFields fs @ rest" "rest = [] \<or> hd rest = CHR '','' \<or> properField rest"
      by blast
    with r pf have "list_all properField (f # fs) \<and> r = joinFields (f # fs) @ rest \<and>
        (rest = [] \<or> hd rest = CHR '','' \<or> properField rest)"
      by (simp add: joinFields_def)
    then show ?thesis by blast
  qed
qed

section \<open>Empty fields\<close>

lemma emptyFieldNext_panics: "emptyFieldNext r \<Longrightarrow> compileLoop g v r = Inl Panic"
  by (cases r) (auto simp: emptyFieldNext_def compileLoop_empty compileLoop_empty_field)



lemma tail_cases:
  "rest = [] \<or> hd rest = CHR '','' \<or> properField rest \<Longrightarrow> emptyFieldNext rest \<or> properField rest"
  by (cases rest) (auto simp: emptyFieldNext_def)


lemma Split_field:
  "sep \<notin> set f \<Longrightarrow> Split (f @ sep # r) sep = f # Split r sep"
  by (induction f) auto

lemma Split_joinFields:
  "list_all properField fs \<Longrightarrow> Split (joinFields fs @ rest) (CHR '','') = fs @ Split rest (CHR '','')"
  by (induction fs) (auto simp: joinFields_def properField_def Split_field)





section \<open>Positions of compile errors\<close>

text \<open>
  C5. When \<^verbatim>\<open>Compile\<close> returns an error \<open>e\<close>, the pattern is \<open>joinFields fs @ f @ rest\<close>
  with \<open>f\<close> a whole field (\<open>rest\<close> is empty or starts with the comma that ends \<open>f\<close>), the
  fields \<open>fs\<close> before it compile without error, and \<open>f\<close> is the offending field: its
  compilation returns \<open>e\<close>, or it is the last field, compiles, and leaves a directive
  pending (\<^verbatim>\<open>ErrParseSuffixExpected\<close>). The position in \<open>e\<close> is 1 plus the sum of the
  lengths of the fields \<open>fs\<close>, each counted with its comma; it is 1 when \<open>f\<close> is the first
  field.
\<close>

theorem error_position:
  assumes "Compile g p opts = Inl (Returned e)"
  shows "\<exists>fs f rest v.
           p = joinFields fs @ f @ rest \<and> list_all properField fs \<and> properField f \<and>
           (rest = [] \<or> take 1 rest = '','') \<and>
           compileFields g (initVars opts) fs = Inr v \<and>
           (compileLine g v f = Inl (Returned e) \<or>
            rest = [] \<and> (\<exists>v'. compileLine g v f = Inr v' \<and> state v' \<noteq> nonParseState \<and>
                           Code e = ErrParseSuffixExpected)) \<and>
           Pos e = 1 + sum_list (map (\<lambda>x. length x + 1) fs)"
proof -
  let ?init = "initVars opts"
  have len: "length (joinFields xs) = sum_list (map (\<lambda>x. length x + 1) xs)" for xs
    by (induction xs) (simp_all add: joinFields_def)
  have p0: "pos ?init = 1" by (simp add: initVars_def)
  obtain fs rest where fs: "list_all properField fs" and p: "p = joinFields fs @ rest"
    and tail: "emptyFieldNext rest \<or> properField rest"
    using pattern_fields [of p] tail_cases by blast
  from assms p fs have c: "(case compileFields g ?init fs of Inl x \<Rightarrow> Inl x | Inr v' \<Rightarrow> compileLoop g v' rest) = Inl (Returned e)"
    by (simp add: Compile_def compileLoop_fields)
  show ?thesis
  proof (cases "compileFields g ?init fs")
    case (Inl x)
    with c have x: "x = Returned e" by simp
    from compileFields_fail [OF Inl] obtain fs1 f fs2 v1 where
      s: "fs = fs1 @ f # fs2" and ok: "compileFields g ?init fs1 = Inr v1" and bad: "compileLine g v1 f = Inl x"
      by blast
    have "pos v1 = 1 + length (joinFields fs1)" using compileFields_pos [OF ok] p0 by simp
    with bad x have ps: "Pos e = 1 + sum_list (map (\<lambda>x. length x + 1) fs1)"
      using compileLine_error [of g v1 f e] len by simp
    have "p = joinFields fs1 @ f @ (CHR '','' # joinFields fs2 @ rest)"
      using p s by (simp add: joinFields_def)
    moreover have "list_all properField fs1" "properField f" using fs s by simp_all
    ultimately have "p = joinFields fs1 @ f @ (CHR '','' # joinFields fs2 @ rest) \<and> list_all properField fs1 \<and> properField f \<and>
           ((CHR '','' # joinFields fs2 @ rest) = [] \<or> take 1 (CHR '','' # joinFields fs2 @ rest) = '','') \<and>
           compileFields g ?init fs1 = Inr v1 \<and>
           (compileLine g v1 f = Inl (Returned e) \<or>
            (CHR '','' # joinFields fs2 @ rest) = [] \<and> (\<exists>v'. compileLine g v1 f = Inr v' \<and> state v' \<noteq> nonParseState \<and>
                           Code e = ErrParseSuffixExpected)) \<and>
           Pos e = 1 + sum_list (map (\<lambda>x. length x + 1) fs1)"
      using ok bad x ps by simp
    then show ?thesis by blast
  next
    case (Inr v)
    with c have r: "compileLoop g v rest = Inl (Returned e)" by simp
    with tail have pf: "properField rest" using emptyFieldNext_panics [of rest g v] by auto
    have pv: "pos v = 1 + length (joinFields fs)" using compileFields_pos [OF Inr] p0 by simp
    have alt: "compileLine g v rest = Inl (Returned e) \<or>
            (\<exists>v'. compileLine g v rest = Inr v' \<and> state v' \<noteq> nonParseState \<and>
                           e = \<lparr>Code = ErrParseSuffixExpected, Pos = pos v', Cause = None\<rparr>)"
      using r compileLoop_field_end [OF pf, of g v]
      by (auto simp: parseError_def split: sum.splits if_splits)
    have ps: "Pos e = 1 + sum_list (map (\<lambda>x. length x + 1) fs)"
      using alt pv len compileLine_error [of g v rest e] compileLine_pos [of g v rest]
      by auto
    have "p = joinFields fs @ rest @ [] \<and> list_all properField fs \<and> properField rest \<and>
           (([]::string) = [] \<or> take 1 ([]::string) = '','') \<and>
           compileFields g ?init fs = Inr v \<and>
           (compileLine g v rest = Inl (Returned e) \<or>
            ([]::string) = [] \<and> (\<exists>v'. compileLine g v rest = Inr v' \<and> state v' \<noteq> nonParseState \<and>
                           Code e = ErrParseSuffixExpected)) \<and>
           Pos e = 1 + sum_list (map (\<lambda>x. length x + 1) fs)"
      using p fs pf Inr alt ps by auto
    then show ?thesis by blast
  qed
qed

theorem error_position_witness:
  "Compile gcGrowslice ''foo,N/binary'' [] =
     Inl (Returned \<lparr>Code = ErrParseInvalidType, Pos = 5, Cause = None\<rparr>) \<and>
   (\<exists>fs f rest v.
           ''foo,N/binary'' = joinFields fs @ f @ rest \<and> list_all properField fs \<and> properField f \<and>
           (rest = [] \<or> take 1 rest = '','') \<and>
           compileFields gcGrowslice (initVars []) fs = Inr v \<and>
           (compileLine gcGrowslice v f = Inl (Returned \<lparr>Code = ErrParseInvalidType, Pos = 5, Cause = None\<rparr>) \<or>
            rest = [] \<and> (\<exists>v'. compileLine gcGrowslice v f = Inr v' \<and> state v' \<noteq> nonParseState \<and>
                           Code \<lparr>Code = ErrParseInvalidType, Pos = 5, Cause = None\<rparr> = ErrParseSuffixExpected)) \<and>
           Pos \<lparr>Code = ErrParseInvalidType, Pos = 5, Cause = None\<rparr> = 1 + sum_list (map (\<lambda>x. length x + 1) fs))"
proof -
  have c: "Compile gcGrowslice ''foo,N/binary'' [] =
     Inl (Returned \<lparr>Code = ErrParseInvalidType, Pos = 5, Cause = None\<rparr>)" by code_simp
  from c error_position [OF c] show ?thesis by blast
qed

section \<open>A suffix after a directive without size\<close>

lemma compileLine_blind: "compileLine g v ''_'' = Inr (v\<lparr>state := blindParseState\<rparr>)"
  by (simp add: compileLine_def compileBlind_def)

lemma Split_none: "sep \<notin> set s \<Longrightarrow> Split s sep = [s]"
  by (induction s) auto

lemma bindName_hd: "bindName nm \<Longrightarrow> hd (nm @ CHR ''/'' # t) \<noteq> CHR ''_''"
  by (cases nm) (auto simp: bindName_def)

lemma compileLine_bin:
  "bindName nm \<Longrightarrow> compileLine g v (nm @ ''/bin'') = Inr (v\<lparr>state := binParseState\<rparr>)"
  using bindName_hd [of nm "''bin''"]
  by (simp add: compileLine_def compileBind_def Split_field Split_none bindName_def)

lemma compileLine_int:
  "bindName nm \<Longrightarrow> compileLine g v (nm @ ''/int'') = Inr (v\<lparr>name := nm, state := intParseState\<rparr>)"
  using bindName_hd [of nm "''int''"]
  by (simp add: compileLine_def compileBind_def Split_field Split_none bindName_def)

lemma suffixField_hd: "suffixField s \<Longrightarrow> hd s \<noteq> CHR ''_''"
  by (cases s) (auto simp: suffixField_def properField_def)

lemma compileLine_suffix:
  "suffixField s \<Longrightarrow> state v \<noteq> nonParseState \<Longrightarrow> compileLine g v s = Inr (compileSuffix g v s)"
  using suffixField_hd [of s] by (simp add: compileLine_def suffixField_def)

lemma properField_bin: "bindName nm \<Longrightarrow> properField (nm @ ''/bin'')"
  and properField_int: "bindName nm \<Longrightarrow> properField (nm @ ''/int'')"
  by (simp_all add: properField_def bindName_def)

lemma directive_then_suffix:
  assumes d: "properField d" and l: "compileLine g v d = Inr v1" and st: "state v1 \<noteq> nonParseState"
    and sfx: "suffixField sfx" and k: "k = length d + 1"
  shows "compileLoop g v (d @ CHR '','' # sfx @ CHR '','' # rest) =
           compileLoop g ((compileSuffix g (v1\<lparr>pos := pos v + k\<rparr>) sfx)
                            \<lparr>pos := pos v + k + (length sfx + 1)\<rparr>) rest"
    and "compileLoop g v (d @ CHR '','' # sfx) =
           Inr (matcher (compileSuffix g (v1\<lparr>pos := pos v + k\<rparr>) sfx),
                memory (compileSuffix g (v1\<lparr>pos := pos v + k\<rparr>) sfx))"
proof -
  let ?v1 = "v1\<lparr>pos := pos v + k\<rparr>"
  have sf: "properField sfx" using sfx by (simp add: suffixField_def)
  have p1: "pos v1 = pos v" using l by (rule compileLine_pos)
  have 1: "compileLoop g v (d @ CHR '','' # t) = compileLoop g ?v1 t" for t
    using compileLoop_field_comma [OF d, of g v t] l p1 k by simp
  have 2: "compileLine g ?v1 sfx = Inr (compileSuffix g ?v1 sfx)"
    using compileLine_suffix [OF sfx, of ?v1 g] st by simp
  have 3: "state (compileSuffix g ?v1 sfx) = nonParseState" "pos (compileSuffix g ?v1 sfx) = pos v + k"
    by (simp_all add: compileSuffix_def compileVars_simps Let_def split: parseState.splits)
  show "compileLoop g v (d @ CHR '','' # sfx @ CHR '','' # rest) =
           compileLoop g ((compileSuffix g ?v1 sfx)\<lparr>pos := pos v + k + (length sfx + 1)\<rparr>) rest"
    unfolding 1 using compileLoop_field_comma [OF sf, of g ?v1 rest] 2 3 by simp
  show "compileLoop g v (d @ CHR '','' # sfx) =
           Inr (matcher (compileSuffix g ?v1 sfx), memory (compileSuffix g ?v1 sfx))"
    unfolding 1 using compileLoop_field_end [OF sf, of g ?v1] 2 3 by simp
qed

text \<open>
  C2, amended. Wherever the loop of \<^verbatim>\<open>Compile\<close> stands (any variables \<open>v\<close>), a
  directive without size (\<^verbatim>\<open>_\<close>, \<^verbatim>\<open>name/bin\<close>, \<^verbatim>\<open>name/int\<close>) followed by a
  field \<open>sfx\<close> that does not start with \<open>_\<close> and holds no \<open>/\<close> compiles to one
  instruction, the scan for the suffix \<open>sfx\<close> (for \<^verbatim>\<open>name/int\<close> with a fresh cell bound
  to the name), with nothing pending afterwards: both when more fields follow and when
  \<open>sfx\<close> ends the pattern. A field \<^verbatim>\<open>_\<close>, \<^verbatim>\<open>name/bin\<close> or \<^verbatim>\<open>name/int\<close> is
  compiled as a directive whatever the variables: it emits no instruction and sets the
  pending state, replacing a directive that was pending.
\<close>

theorem suffix_follows_pending_directive:
  assumes "suffixField sfx" and "bindName nm"
  shows "(\<exists>v'. instSlice (matcher v') =
               instSlice (matcher v) @ [genInstVarWithoutSize (pos v + 2) sfx False (maxVarSize (matcher v))] \<and>
             state v' = nonParseState \<and>
             binds v' = binds v \<and>
             (\<forall>rest. compileLoop g v (''_,'' @ sfx @ '','' @ rest) =
                     compileLoop g (v'\<lparr>pos := pos v + 2 + (length sfx + 1)\<rparr>) rest) \<and>
             compileLoop g v (''_,'' @ sfx) = Inr (matcher v', memory v')) \<and>
    (\<exists>v'. instSlice (matcher v') =
               instSlice (matcher v) @
               [genInstVarWithoutSize (pos v + (length nm + 5)) sfx True (maxVarSize (matcher v))] \<and>
             state v' = nonParseState \<and>
             binds v' = binds v \<and>
             (\<forall>rest. compileLoop g v (nm @ ''/bin,'' @ sfx @ '','' @ rest) =
                     compileLoop g (v'\<lparr>pos := pos v + (length nm + 5) + (length sfx + 1)\<rparr>) rest) \<and>
             compileLoop g v (nm @ ''/bin,'' @ sfx) = Inr (matcher v', memory v')) \<and>
    (\<exists>v'. instSlice (matcher v') =
               instSlice (matcher v) @
               [genInstIntWithoutSize (pos v + (length nm + 5)) sfx (addr (binds v') (len (binds v)))
                  (maxVarSize (matcher v))] \<and>
             state v' = nonParseState \<and>
             len (binds v') = len (binds v) + 1 \<and>
             intBindsMap v' = (intBindsMap v)(nm \<mapsto> len (binds v)) \<and>
             (\<forall>rest. compileLoop g v (nm @ ''/int,'' @ sfx @ '','' @ rest) =
                     compileLoop g (v'\<lparr>pos := pos v + (length nm + 5) + (length sfx + 1)\<rparr>) rest) \<and>
             compileLoop g v (nm @ ''/int,'' @ sfx) = Inr (matcher v', memory v')) \<and>
    (compileLine g v ''_'' = Inr (v\<lparr>state := blindParseState\<rparr>) \<and>
     compileLine g v (nm @ ''/bin'') = Inr (v\<lparr>state := binParseState\<rparr>) \<and>
     compileLine g v (nm @ ''/int'') = Inr (v\<lparr>name := nm, state := intParseState\<rparr>))"
proof -
  let ?b = "compileSuffix g (v\<lparr>state := blindParseState, pos := pos v + 2\<rparr>) sfx"
  have "instSlice (matcher ?b) =
               instSlice (matcher v) @ [genInstVarWithoutSize (pos v + 2) sfx False (maxVarSize (matcher v))] \<and>
             state ?b = nonParseState \<and> binds ?b = binds v \<and>
             (\<forall>rest. compileLoop g v (''_,'' @ sfx @ '','' @ rest) =
                     compileLoop g (?b\<lparr>pos := pos v + 2 + (length sfx + 1)\<rparr>) rest) \<and>
             compileLoop g v (''_,'' @ sfx) = Inr (matcher ?b, memory ?b)"
    using directive_then_suffix [where g = g and v = v and k = 2, OF _ compileLine_blind _ assms(1)]
    by (simp add: compileSuffix_def compileVars_simps properField_def)
  then have A: "\<exists>v'. instSlice (matcher v') =
               instSlice (matcher v) @ [genInstVarWithoutSize (pos v + 2) sfx False (maxVarSize (matcher v))] \<and>
             state v' = nonParseState \<and>
             binds v' = binds v \<and>
             (\<forall>rest. compileLoop g v (''_,'' @ sfx @ '','' @ rest) =
                     compileLoop g (v'\<lparr>pos := pos v + 2 + (length sfx + 1)\<rparr>) rest) \<and>
             compileLoop g v (''_,'' @ sfx) = Inr (matcher v', memory v')"
    by blast
  let ?b = "compileSuffix g (v\<lparr>state := binParseState, pos := pos v + (length nm + 5)\<rparr>) sfx"
  have "instSlice (matcher ?b) =
               instSlice (matcher v) @
               [genInstVarWithoutSize (pos v + (length nm + 5)) sfx True (maxVarSize (matcher v))] \<and>
             state ?b = nonParseState \<and> binds ?b = binds v \<and>
             (\<forall>rest. compileLoop g v (nm @ ''/bin,'' @ sfx @ '','' @ rest) =
                     compileLoop g (?b\<lparr>pos := pos v + (length nm + 5) + (length sfx + 1)\<rparr>) rest) \<and>
             compileLoop g v (nm @ ''/bin,'' @ sfx) = Inr (matcher ?b, memory ?b)"
    using directive_then_suffix [where g = g and v = v and k = "length nm + 5", OF properField_bin [OF assms(2)] compileLine_bin [OF assms(2)] _ assms(1)]
    by (simp add: compileSuffix_def compileVars_simps)
  then have B: "\<exists>v'. instSlice (matcher v') =
               instSlice (matcher v) @
               [genInstVarWithoutSize (pos v + (length nm + 5)) sfx True (maxVarSize (matcher v))] \<and>
             state v' = nonParseState \<and>
             binds v' = binds v \<and>
             (\<forall>rest. compileLoop g v (nm @ ''/bin,'' @ sfx @ '','' @ rest) =
                     compileLoop g (v'\<lparr>pos := pos v + (length nm + 5) + (length sfx + 1)\<rparr>) rest) \<and>
             compileLoop g v (nm @ ''/bin,'' @ sfx) = Inr (matcher v', memory v')"
    by blast
  let ?b = "compileSuffix g (v\<lparr>name := nm, state := intParseState, pos := pos v + (length nm + 5)\<rparr>) sfx"
  have "instSlice (matcher ?b) =
               instSlice (matcher v) @
               [genInstIntWithoutSize (pos v + (length nm + 5)) sfx (addr (binds ?b) (len (binds v)))
                  (maxVarSize (matcher v))] \<and>
             state ?b = nonParseState \<and>
             len (binds ?b) = len (binds v) + 1 \<and>
             intBindsMap ?b = (intBindsMap v)(nm \<mapsto> len (binds v)) \<and>
             (\<forall>rest. compileLoop g v (nm @ ''/int,'' @ sfx @ '','' @ rest) =
                     compileLoop g (?b\<lparr>pos := pos v + (length nm + 5) + (length sfx + 1)\<rparr>) rest) \<and>
             compileLoop g v (nm @ ''/int,'' @ sfx) = Inr (matcher ?b, memory ?b)"
    using directive_then_suffix [where g = g and v = v and k = "length nm + 5", OF properField_int [OF assms(2)] compileLine_int [OF assms(2)] _ assms(1)]
    by (simp add: compileSuffix_def compileVars_simps Let_def)
  then have C: "\<exists>v'. instSlice (matcher v') =
               instSlice (matcher v) @
               [genInstIntWithoutSize (pos v + (length nm + 5)) sfx (addr (binds v') (len (binds v)))
                  (maxVarSize (matcher v))] \<and>
             state v' = nonParseState \<and>
             len (binds v') = len (binds v) + 1 \<and>
             intBindsMap v' = (intBindsMap v)(nm \<mapsto> len (binds v)) \<and>
             (\<forall>rest. compileLoop g v (nm @ ''/int,'' @ sfx @ '','' @ rest) =
                     compileLoop g (v'\<lparr>pos := pos v + (length nm + 5) + (length sfx + 1)\<rparr>) rest) \<and>
             compileLoop g v (nm @ ''/int,'' @ sfx) = Inr (matcher v', memory v')"
    by blast
  have D: "compileLine g v ''_'' = Inr (v\<lparr>state := blindParseState\<rparr>) \<and>
     compileLine g v (nm @ ''/bin'') = Inr (v\<lparr>state := binParseState\<rparr>) \<and>
     compileLine g v (nm @ ''/int'') = Inr (v\<lparr>name := nm, state := intParseState\<rparr>)"
    using compileLine_blind [of g v] compileLine_bin [OF assms(2), of g v]
      compileLine_int [OF assms(2), of g v]
    by (intro conjI)
  show ?thesis by (rule conjI [OF A conjI [OF B conjI [OF C D]]])
qed

theorem suffix_follows_pending_directive_witness:
  "suffixField '';'' \<and> bindName ''N'' \<and>
   (\<exists>m h. Compile gcGrowslice (''_,'' @ '';'') [] = Inr (m, h) \<and>
      instSlice m = [genInstVarWithoutSize 3 '';'' False 4096]) \<and>
   (\<exists>m h. Compile gcGrowslice (''N'' @ ''/bin,'' @ '';'') [] = Inr (m, h) \<and>
      instSlice m = [genInstVarWithoutSize 7 '';'' True 4096]) \<and>
   (\<exists>m h. Compile gcGrowslice (''N'' @ ''/int,'' @ '';'') [] = Inr (m, h) \<and>
      instSlice m = [genInstIntWithoutSize 7 '';'' (arr (intBinds m), 0) 4096])"
proof -
  have s: "suffixField '';''" and n: "bindName ''N''"
    by (simp_all add: suffixField_def bindName_def properField_def)
  have i: "instSlice (matcher (initVars [])) = []" "pos (initVars []) = 1"
    "maxVarSize (matcher (initVars [])) = 4096" "len (binds (initVars [])) = 0"
    by (simp_all add: initVars_def newMatcher_def binds_def nilSlice_def)
  from suffix_follows_pending_directive [OF s n, of "initVars []" gcGrowslice] s n i
  show ?thesis
    unfolding Compile_def by (auto simp: addr_def binds_def)
qed

text \<open>
  C2, as the claim states it, fails: in \<^verbatim>\<open>_,N/int,;\<close> the field \<^verbatim>\<open>N/int\<close> holds a
  \<open>/\<close>, so the if-chain takes it for a binding directive before it looks at the pending
  state. The pattern compiles to the single integer instruction with suffix \<^verbatim>\<open>;\<close>
  and the blind directive emits nothing. On \<^verbatim>\<open>xN/int;\<close> the match fails in
  \<^verbatim>\<open>ParseInt\<close>, where the instructions of the claim's reading (a blind scan for the
  suffix \<^verbatim>\<open>N/int\<close>, then the constant \<^verbatim>\<open>;\<close>) succeed.
\<close>

theorem directive_after_pending_counterexample:
  "Compile gcGrowslice ''_,N/int,;'' [] =
     Inr (\<lparr>instSlice = [genInstIntWithoutSize 9 '';'' (0, 0) 4096],
           intBinds = \<lparr>arr = 0, len = 1, cap = 1\<rparr>, maxVarSize = 4096\<rparr>, [[0]]) \<and>
   fst (MatchReader \<lparr>instSlice = [genInstIntWithoutSize 9 '';'' (0, 0) 4096],
           intBinds = \<lparr>arr = 0, len = 1, cap = 1\<rparr>, maxVarSize = 4096\<rparr> [[0]] (NewReader ''xN/int;'')) =
     Inl (Returned \<lparr>Code = ErrIntVarNotMuch, Pos = 9, Cause = Some (NumError ''xN/int'' ErrSyntax)\<rparr>) \<and>
   fst (MatchReader \<lparr>instSlice = [genInstVarWithoutSize 3 ''N/int'' False 4096, genInstConst 9 '';''],
           intBinds = nilSlice, maxVarSize = 4096\<rparr> [] (NewReader ''xN/int;'')) = Inr []"
  by code_simp

section \<open>The buffer of the suffix scan\<close>

lemma Read_length: "Read r k = (Inr got, r') \<Longrightarrow> length got \<le> k"
  by (auto simp: Read_def split: list.splits if_splits)

lemma length_written:
  "idx s < length (buf s) \<Longrightarrow> length got \<le> 1 \<Longrightarrow> length (written s got) = length (buf s)"
  by (auto simp: written_def)

lemma scanBody_inv:
  assumes "scanBody code ps suffix mx s = Inr s'" and "scanInv mx s"
  shows "scanInv mx s'"
proof -
  from assms(1) obtain got r' where rd: "Read (rdr s) 1 = (Inr got, r')"
    by (auto simp: scanBody_def split: prod.splits sum.splits)
  have lw: "length (written s got) = length (buf s)"
    using assms(2) Read_length [OF rd] by (simp add: length_written scanInv_def)
  show ?thesis
    using assms rd lw
    by (auto simp: scanBody_def scanInv_def Let_def split: if_splits)
qed

lemma scanStates_inv:
  "scanInv mx s \<Longrightarrow> \<forall>t \<in> set (scanStates code ps suffix mx s). scanInv mx t"
proof (induction code ps suffix mx s rule: scanStates.induct)
  case (1 code ps suffix mx s)
  show ?case
  proof (cases "scanBody code ps suffix mx s")
    case (Inl out)
    with "1.prems" show ?thesis by (subst scanStates.simps) simp
  next
    case (Inr s')
    with "1.IH" [OF Inr scanBody_inv [OF Inr "1.prems"]] "1.prems"
    show ?thesis by (subst scanStates.simps) simp
  qed
qed

lemma scanInit_inv: "scanInv mx (scanInit r)"
  by (simp add: scanInv_def scanInit_def)

lemma scanLoop_from_state:
  "t \<in> set (scanStates code ps suffix mx s) \<Longrightarrow>
   scanLoop code ps suffix mx s = scanLoop code ps suffix mx t"
proof (induction code ps suffix mx s rule: scanStates.induct)
  case (1 code ps suffix mx s)
  show ?case
  proof (cases "scanBody code ps suffix mx s")
    case (Inl out)
    with "1.prems" have "t = s" by (subst (asm) scanStates.simps) simp
    then show ?thesis by simp
  next
    case (Inr s')
    from "1.prems" Inr have "t = s \<or> t \<in> set (scanStates code ps suffix mx s')"
      by (subst (asm) scanStates.simps) simp
    then show ?thesis
    proof
      assume "t = s" then show ?thesis by simp
    next
      assume "t \<in> set (scanStates code ps suffix mx s')"
      from "1.IH" [OF Inr this] Inr show ?thesis
        by (subst scanLoop.simps) simp
    qed
  qed
qed

lemma scanLoop_exceeds:
  assumes "Read (rdr s) 1 = (Inr got, r')" "\<not> suffixFound suffix s got" "idx s + 1 = bs s"
    "mx < int (bs s * 2)"
  shows "scanLoop code ps suffix mx s =
           (Inl (Returned \<lparr>Code = ErrVarExceedMaxSize mx, Pos = ps, Cause = None\<rparr>), r')"
  using assms by (subst scanLoop.simps) (simp add: scanBody_def)

text \<open>
  C4, amended. For a suffix-scanning instruction with limit \<open>mx\<close> and any reader, at the
  head of every iteration the buffer has \<open>bs\<close> bytes, at most \<open>max mx 16\<close>, of which
  \<open>idx < bs\<close> are read: the buffer never holds more than \<open>mx\<close> bytes when \<open>mx\<close> is at
  least 16, and never more than 16 otherwise. When the byte read in an iteration fills the
  buffer (\<open>idx + 1 = bs\<close>) without the suffix found and twice \<open>bs\<close> exceeds \<open>mx\<close>, the
  instruction returns \<^verbatim>\<open>ErrVarExceedMaxSize\<close> of \<open>mx\<close> at its position, for the binary
  and for the integer instruction.
\<close>

theorem scan_buffer_bound:
  "(\<forall>s \<in> set (scanStates code ps suffix mx (scanInit r)).
      bs s = length (buf s) \<and> idx s < bs s \<and> int (bs s) \<le> max mx 16) \<and>
   (\<forall>s \<in> set (scanStates ErrVarNotMuch ps suffix mx (scanInit r)).
      \<forall>got r'. Read (rdr s) 1 = (Inr got, r') \<and> \<not> suffixFound suffix s got \<and>
               idx s + 1 = bs s \<and> mx < int (bs s * 2) \<longrightarrow>
        runInst (genInstVarWithoutSize ps suffix capture mx) h r =
          (Inl (Returned \<lparr>Code = ErrVarExceedMaxSize mx, Pos = ps, Cause = None\<rparr>), h, r')) \<and>
   (\<forall>s \<in> set (scanStates ErrIntVarNotMuch ps suffix mx (scanInit r)).
      \<forall>got r'. Read (rdr s) 1 = (Inr got, r') \<and> \<not> suffixFound suffix s got \<and>
               idx s + 1 = bs s \<and> mx < int (bs s * 2) \<longrightarrow>
        runInst (genInstIntWithoutSize ps suffix outSize mx) h r =
          (Inl (Returned \<lparr>Code = ErrVarExceedMaxSize mx, Pos = ps, Cause = None\<rparr>), h, r'))"
proof (intro conjI ballI allI impI)
  fix s assume "s \<in> set (scanStates code ps suffix mx (scanInit r))"
  with scanStates_inv [OF scanInit_inv]
  have "scanInv mx s" by blast
  then show "bs s = length (buf s)" "idx s < bs s" "int (bs s) \<le> max mx 16"
    by (simp_all add: scanInv_def)
next
  fix s got r'
  assume s: "s \<in> set (scanStates ErrVarNotMuch ps suffix mx (scanInit r))"
    and c: "Read (rdr s) 1 = (Inr got, r') \<and> \<not> suffixFound suffix s got \<and>
               idx s + 1 = bs s \<and> mx < int (bs s * 2)"
  have "scanLoop ErrVarNotMuch ps suffix mx (scanInit r) =
          (Inl (Returned \<lparr>Code = ErrVarExceedMaxSize mx, Pos = ps, Cause = None\<rparr>), r')"
    using scanLoop_from_state [OF s] scanLoop_exceeds [of s got r' suffix mx ErrVarNotMuch ps] c
    by simp
  then show "runInst (genInstVarWithoutSize ps suffix capture mx) h r =
          (Inl (Returned \<lparr>Code = ErrVarExceedMaxSize mx, Pos = ps, Cause = None\<rparr>), h, r')"
    by simp
next
  fix s got r'
  assume s: "s \<in> set (scanStates ErrIntVarNotMuch ps suffix mx (scanInit r))"
    and c: "Read (rdr s) 1 = (Inr got, r') \<and> \<not> suffixFound suffix s got \<and>
               idx s + 1 = bs s \<and> mx < int (bs s * 2)"
  have "scanLoop ErrIntVarNotMuch ps suffix mx (scanInit r) =
          (Inl (Returned \<lparr>Code = ErrVarExceedMaxSize mx, Pos = ps, Cause = None\<rparr>), r')"
    using scanLoop_from_state [OF s] scanLoop_exceeds [of s got r' suffix mx ErrIntVarNotMuch ps] c
    by simp
  then show "runInst (genInstIntWithoutSize ps suffix outSize mx) h r =
          (Inl (Returned \<lparr>Code = ErrVarExceedMaxSize mx, Pos = ps, Cause = None\<rparr>), h, r')"
    by simp
qed


theorem scan_buffer_bound_witness:
  "list_all (\<lambda>s. bs s = length (buf s) \<and> idx s < bs s \<and> int (bs s) \<le> max 20 16)
     (scanStates ErrVarNotMuch 4 ''buzz'' 20 (scanInit (NewReader ''foobarfoobarfoobarbuzz''))) \<and>
   last (scanStates ErrVarNotMuch 4 ''buzz'' 20 (scanInit (NewReader ''foobarfoobarfoobarbuzz''))) =
     \<lparr>rdr = \<lparr>chunks = [''barbuzz''], calls = 15\<rparr>, idx = 15, midx = 12, bs = 16,
      buf = ''foobarfoobarfoo'' @ [CHR 0x00]\<rparr> \<and>
   runInst (genInstVarWithoutSize 4 ''buzz'' True 20) [] (NewReader ''foobarfoobarfoobarbuzz'') =
     (Inl (Returned \<lparr>Code = ErrVarExceedMaxSize 20, Pos = 4, Cause = None\<rparr>), [],
      \<lparr>chunks = [''arbuzz''], calls = 16\<rparr>)"
proof -
  let ?r = "NewReader ''foobarfoobarfoobarbuzz''"
  let ?s = "\<lparr>rdr = \<lparr>chunks = [''barbuzz''], calls = 15\<rparr>, idx = 15, midx = 12, bs = 16,
      buf = ''foobarfoobarfoo'' @ [CHR 0x00]\<rparr>"
  have l: "last (scanStates ErrVarNotMuch 4 ''buzz'' 20 (scanInit ?r)) = ?s"
    by code_simp
  have ne: "scanStates ErrVarNotMuch 4 ''buzz'' 20 (scanInit ?r) \<noteq> []"
    by (subst scanStates.simps) simp
  have m: "?s \<in> set (scanStates ErrVarNotMuch 4 ''buzz'' 20 (scanInit ?r))"
    using last_in_set [OF ne] l by simp
  have c: "Read (rdr ?s) 1 = (Inr ''b'', \<lparr>chunks = [''arbuzz''], calls = 16\<rparr>) \<and>
      \<not> suffixFound ''buzz'' ?s ''b'' \<and> idx ?s + 1 = bs ?s \<and> 20 < int (bs ?s * 2)"
    by code_simp
  note T = scan_buffer_bound [of ErrVarNotMuch 4 "''buzz''" 20 ?r True "[]" "(0, 0)"]
  from T have A: "\<forall>s \<in> set (scanStates ErrVarNotMuch 4 ''buzz'' 20 (scanInit ?r)).
      bs s = length (buf s) \<and> idx s < bs s \<and> int (bs s) \<le> max 20 16"
    by (rule conjunct1)
  from T have B: "\<forall>s \<in> set (scanStates ErrVarNotMuch 4 ''buzz'' 20 (scanInit ?r)).
      \<forall>got r'. Read (rdr s) 1 = (Inr got, r') \<and> \<not> suffixFound ''buzz'' s got \<and>
               idx s + 1 = bs s \<and> 20 < int (bs s * 2) \<longrightarrow>
        runInst (genInstVarWithoutSize 4 ''buzz'' True 20) [] ?r =
          (Inl (Returned \<lparr>Code = ErrVarExceedMaxSize 20, Pos = 4, Cause = None\<rparr>), [], r')"
    by blast
  from B m c have C: "runInst (genInstVarWithoutSize 4 ''buzz'' True 20) [] ?r =
     (Inl (Returned \<lparr>Code = ErrVarExceedMaxSize 20, Pos = 4, Cause = None\<rparr>), [],
      \<lparr>chunks = [''arbuzz''], calls = 16\<rparr>)"
    by blast
  from A have D: "list_all (\<lambda>s. bs s = length (buf s) \<and> idx s < bs s \<and> int (bs s) \<le> max 20 16)
     (scanStates ErrVarNotMuch 4 ''buzz'' 20 (scanInit ?r))"
    unfolding list_all_iff .
  from D l C show ?thesis by (intro conjI)
qed

text \<open>
  C4, as the claim states it, fails for limits below 16: the first buffer has 16 bytes
  whatever the limit, and the limit is only compared with a doubled capacity. With the
  limit 4, \<^verbatim>\<open>V/bin,;\<close> matches \<^verbatim>\<open>abcdefgh;\<close> and captures the 8 bytes the buffer held;
  at the head of the last iteration the buffer holds 8 bytes read.
\<close>

theorem small_limit_counterexample:
  "Compile gcGrowslice ''V/bin,;'' [WithMaxVariableSize 4] =
     Inr (\<lparr>instSlice = [genInstVarWithoutSize 7 '';'' True 4], intBinds = nilSlice,
           maxVarSize = 4\<rparr>, []) \<and>
   MatchReader \<lparr>instSlice = [genInstVarWithoutSize 7 '';'' True 4], intBinds = nilSlice,
                maxVarSize = 4\<rparr> [] (NewReader ''abcdefgh;'') =
     (Inr [''abcdefgh''], [], \<lparr>chunks = [], calls = 9\<rparr>) \<and>
   last (scanStates ErrVarNotMuch 7 '';'' 4 (scanInit (NewReader ''abcdefgh;''))) =
     \<lparr>rdr = \<lparr>chunks = ['';''], calls = 8\<rparr>, idx = 8, midx = 8, bs = 16,
      buf = ''abcdefgh'' @ replicate 8 (CHR 0x00)\<rparr>"
  by code_simp

section \<open>Captures\<close>

lemma compileFields_append:
  "compileFields g v (a @ b) =
     (case compileFields g v a of Inl e \<Rightarrow> Inl e | Inr v' \<Rightarrow> compileFields g v' b)"
  by (induction a arbitrary: v) (auto split: sum.splits)

lemma compile_success_fields:
  assumes "Compile g p opts = Inr (m, h)"
  shows "\<exists>v. compileFields g (initVars opts) (Split p (CHR '','')) = Inr v \<and>
             state v = nonParseState \<and> m = matcher v \<and> h = memory v \<and>
             list_all properField (Split p (CHR '',''))"
proof -
  let ?init = "initVars opts"
  obtain fs rest where fs: "list_all properField fs" and p: "p = joinFields fs @ rest"
    and tail: "emptyFieldNext rest \<or> properField rest"
    using pattern_fields [of p] tail_cases by blast
  from assms p fs have c: "(case compileFields g ?init fs of Inl x \<Rightarrow> Inl x | Inr v' \<Rightarrow> compileLoop g v' rest) = Inr (m, h)"
    by (simp add: Compile_def compileLoop_fields)
  then obtain v1 where v1: "compileFields g ?init fs = Inr v1" and r: "compileLoop g v1 rest = Inr (m, h)"
    by (auto split: sum.splits)
  from r tail have pf: "properField rest" using emptyFieldNext_panics [of rest g v1] by auto
  from r compileLoop_field_end [OF pf, of g v1] obtain v' where
    l: "compileLine g v1 rest = Inr v'" and st: "state v' = nonParseState"
    and mh: "m = matcher v'" "h = memory v'"
    by (auto split: sum.splits if_splits)
  have sp: "Split p (CHR '','') = fs @ [rest]"
    using p fs pf by (simp add: Split_joinFields Split_none properField_def)
  let ?v = "v'\<lparr>pos := pos v' + (length rest + 1)\<rparr>"
  have "compileFields g ?init (fs @ [rest]) = Inr ?v"
    using v1 l by (simp add: compileFields_append)
  with sp st mh fs pf have "compileFields g ?init (Split p (CHR '','')) = Inr ?v \<and>
             state ?v = nonParseState \<and> m = matcher ?v \<and> h = memory ?v \<and>
             list_all properField (Split p (CHR '',''))"
    by simp
  then show ?thesis by blast
qed

lemma isBlind_hd: "f \<noteq> [] \<Longrightarrow> isBlind f = (hd f = CHR ''_'')"
  by (cases f) (auto simp: isBlind_def)

lemma blind_single: "f \<noteq> [] \<Longrightarrow> hd f = CHR ''_'' \<Longrightarrow> (length f = 1) = (f = ''_'')"
  by (cases f) auto

lemma compileBlind_summary:
  assumes "compileBlind g v f = Inr v'" and "f \<noteq> []" and "hd f = CHR ''_''"
  shows "pos v' = pos v \<and>
     (if f = ''_'' then insts v' = insts v \<and> state v' = blindParseState
      else (\<exists>i. insts v' = insts v @ [i] \<and> \<not> capturing i \<and> instPos i = pos v) \<and> state v' = state v)"
  using assms blind_single [of f]
  by (auto simp: compileBlind_def compileVars_simps Let_def parseError_def
           split: if_splits sum.splits option.splits)

lemma compileBind_summary:
  assumes "compileBind g v f = Inr v'"
  shows "pos v' = pos v \<and>
     (if length (Split (Split f (CHR ''/'') ! 1) (CHR '':'')) \<noteq> 2
      then insts v' = insts v \<and> (state v' = binParseState \<or> state v' = intParseState)
      else (\<exists>i. insts v' = insts v @ [i] \<and> capturing i \<and> instPos i = pos v) \<and> state v' = state v)"
  using assms
  by (auto simp: compileBind_def compileVars_simps Let_def parseError_def
           split: if_splits sum.splits option.splits)

lemma compileSuffix_summary:
  assumes "state v \<noteq> nonParseState"
  shows "pos (compileSuffix g v f) = pos v \<and>
     (\<exists>i. insts (compileSuffix g v f) = insts v @ [i] \<and> instPos i = pos v \<and>
          capturing i = (state v = binParseState \<or> state v = intParseState)) \<and>
     state (compileSuffix g v f) = nonParseState"
  using assms by (cases "state v") (auto simp: compileSuffix_def compileVars_simps Let_def)

lemma compileLine_summary:
  assumes "compileLine g v f = Inr v'" and "f \<noteq> []"
  shows "pos v' = pos v \<and>
     (if isBlind f then
        (if f = ''_'' then insts v' = insts v \<and> state v' = blindParseState
         else (\<exists>i. insts v' = insts v @ [i] \<and> \<not> capturing i \<and> instPos i = pos v) \<and>
              state v' = state v)
      else if isBind f then
        (if sizeless f
         then insts v' = insts v \<and> (state v' = binParseState \<or> state v' = intParseState)
         else (\<exists>i. insts v' = insts v @ [i] \<and> capturing i \<and> instPos i = pos v) \<and>
              state v' = state v)
      else (\<exists>i. insts v' = insts v @ [i] \<and> instPos i = pos v \<and>
                capturing i = (state v = binParseState \<or> state v = intParseState)) \<and>
           state v' = nonParseState)"
proof (cases "isBlind f")
  case True
  with assms have "compileBlind g v f = Inr v'" "hd f = CHR ''_''"
    by (simp_all add: compileLine_def isBlind_hd)
  from compileBlind_summary [OF this(1) assms(2) this(2)] True show ?thesis by simp
next
  case nb: False
  then have hd: "hd f \<noteq> CHR ''_''" using assms(2) by (simp add: isBlind_hd)
  show ?thesis
  proof (cases "isBind f")
    case True
    with assms hd have "compileBind g v f = Inr v'"
      by (simp add: compileLine_def isBind_def)
    from compileBind_summary [OF this] True nb show ?thesis
      by (auto simp: sizeless_def isBlind_def)
  next
    case False
    with nb have ns: "CHR ''/'' \<notin> set f" by (simp add: isBind_def)
    show ?thesis
    proof (cases "state v = nonParseState")
      case True
      with assms hd ns have "v' = emit (genInstConst (pos v) f) v"
        by (simp add: compileLine_def)
      with True nb False show ?thesis by (simp add: compileVars_simps)
    next
      case st: False
      with assms hd ns have "v' = compileSuffix g v f"
        by (simp add: compileLine_def)
      with compileSuffix_summary [OF st, of g f] nb False show ?thesis by simp
    qed
  qed
qed

lemma compileLine_posInv:
  assumes "compileLine g v f = Inr v'" and "f \<noteq> []" and "posInv v" and "0 < k"
  shows "posInv (v'\<lparr>pos := pos v' + k\<rparr>)"
proof -
  from compileLine_summary [OF assms(1,2)]
  have p: "pos v' = pos v"
    and i: "insts v' = insts v \<or> (\<exists>i. insts v' = insts v @ [i] \<and> instPos i = pos v)"
    by (auto split: if_splits)
  from i show ?thesis
  proof
    assume "insts v' = insts v"
    with assms(3,4) p show ?thesis by (auto simp: posInv_def)
  next
    assume "\<exists>i. insts v' = insts v @ [i] \<and> instPos i = pos v"
    then obtain i where "insts v' = insts v @ [i]" "instPos i = pos v" by blast
    with assms(3,4) p show ?thesis
      by (auto simp: posInv_def sorted_wrt_append)
  qed
qed

lemma compileFields_posInv:
  "list_all properField fs \<Longrightarrow> compileFields g v fs = Inr v' \<Longrightarrow> posInv v \<Longrightarrow> posInv v'"
proof (induction fs arbitrary: v)
  case Nil
  then show ?case by simp
next
  case (Cons f fs)
  from Cons.prems(2) obtain v1 where l: "compileLine g v f = Inr v1"
    and r: "compileFields g (v1\<lparr>pos := pos v1 + (length f + 1)\<rparr>) fs = Inr v'"
    by (auto split: sum.splits)
  from Cons.prems(1) have "properField f" and fs: "list_all properField fs"
    by simp_all
  then have f: "f \<noteq> []" by (simp add: properField_def)
  from compileLine_posInv [OF l f Cons.prems(3), of "length f + 1"]
  have "posInv (v1\<lparr>pos := pos v1 + (length f + 1)\<rparr>)" by simp
  from Cons.IH [OF fs r this] show ?case .
qed

lemma compileLine_captures:
  assumes l: "compileLine g v f = Inr v1" and f: "f \<noteq> []"
    and s: "suffixed (state v \<noteq> nonParseState) (f # fs)"
  defines "v2 \<equiv> v1\<lparr>pos := pos v1 + (length f + 1)\<rparr>"
  shows "map instPos (filter capturing (insts v2)) @ pendingCapture v2 =
           (map instPos (filter capturing (insts v)) @ pendingCapture v) @
           (if isBind f then [if sizeless f then pos v + (length f + 1) else pos v] else [])"
    and "suffixed (state v2 \<noteq> nonParseState) fs"
proof -
  note S = compileLine_summary [OF l f]
  have nb: "isBlind f \<Longrightarrow> \<not> isBind f" by (simp add: isBind_def)
  have sb: "isBlind f \<Longrightarrow> sizeless f = (f = ''_'')" by (auto simp: sizeless_def isBind_def)
  have dir: "isBlind f \<or> isBind f \<Longrightarrow> state v = nonParseState \<and> suffixed (sizeless f) fs"
    using s by simp
  have nodir: "\<not> isBlind f \<Longrightarrow> \<not> isBind f \<Longrightarrow> suffixed False fs"
    using s by simp
  show "map instPos (filter capturing (insts v2)) @ pendingCapture v2 =
           (map instPos (filter capturing (insts v)) @ pendingCapture v) @
           (if isBind f then [if sizeless f then pos v + (length f + 1) else pos v] else [])"
    using S dir nb unfolding v2_def
    by (cases "isBlind f"; cases "isBind f"; cases "sizeless f"; cases "f = ''_''")
       (auto simp: pendingCapture_def)
  show "suffixed (state v2 \<noteq> nonParseState) fs"
    using S dir nodir nb sb unfolding v2_def
    by (cases "isBlind f"; cases "isBind f"; cases "sizeless f"; cases "f = ''_''") auto
qed

lemma compileFields_captures:
  "list_all properField fs \<Longrightarrow> compileFields g v fs = Inr v' \<Longrightarrow>
   suffixed (state v \<noteq> nonParseState) fs \<Longrightarrow>
   map instPos (filter capturing (insts v')) @ pendingCapture v' =
     (map instPos (filter capturing (insts v)) @ pendingCapture v) @ capturePositions (pos v) fs"
proof (induction fs arbitrary: v)
  case Nil
  then show ?case by simp
next
  case (Cons f fs)
  from Cons.prems(2) obtain v1 where l: "compileLine g v f = Inr v1"
    and r: "compileFields g (v1\<lparr>pos := pos v1 + (length f + 1)\<rparr>) fs = Inr v'"
    by (auto split: sum.splits)
  from Cons.prems(1) have "properField f" and fs: "list_all properField fs"
    by simp_all
  then have f: "f \<noteq> []" by (simp add: properField_def)
  let ?v2 = "v1\<lparr>pos := pos v1 + (length f + 1)\<rparr>"
  note C = compileLine_captures [OF l f Cons.prems(3)]
  have p: "pos ?v2 = pos v + (length f + 1)" using compileLine_pos [OF l] by simp
  from Cons.IH [OF fs r C(2)] C(1) p show ?case by simp
qed

lemma length_capturePositions: "length (capturePositions q fs) = length (filter isBind fs)"
  by (induction fs arbitrary: q) auto

lemma applyOption_instSlice: "instSlice (applyOption x tpm) = instSlice tpm"
  by (cases x) simp

lemma fold_applyOption_instSlice: "instSlice (fold applyOption opts tpm) = instSlice tpm"
  by (induction opts arbitrary: tpm) (simp_all add: applyOption_instSlice)

lemma initVars_simps:
  "insts (initVars opts) = []" "pos (initVars opts) = 1" "state (initVars opts) = nonParseState"
  by (simp_all add: initVars_def newMatcher_def Let_def fold_applyOption_instSlice)

text \<open>
  C6, amended. When a pattern compiles and the matcher accepts a reader, the capture list
  has exactly one entry per capturing instruction of the compiled sequence (a sized or
  suffix-scanning binary instruction made with capture, and every integer instruction;
  none for the others), in the order of the instructions: the captures of the first \<open>k\<close>
  instructions, run alone, are the first entries of the list. The positions of the
  instructions increase, so this order is the left-to-right order of the fields that
  emitted them. When no directive stands where a suffix is pending, there is one
  entry per binding directive (\<^verbatim>\<open>name/bin...\<close>, \<^verbatim>\<open>name/int...\<close>) of the pattern and the
  capturing instructions are, in order, those of the binding directives: each emitted at
  its field when it has a size and at its suffix field when it has none.
\<close>

theorem capture_count_and_order:
  assumes c: "Compile g p opts = Inr (m, h)" and r: "MatchReader m h r = (Inr caps, h', r')"
  shows "length caps = length (filter capturing (instSlice m)) \<and>
         (\<forall>k \<le> length (instSlice m). \<exists>h1 r1.
            matchLoop (take k (instSlice m)) h r [] =
              (Inr (take (length (filter capturing (take k (instSlice m)))) caps), h1, r1)) \<and>
         sorted_wrt (<) (map instPos (instSlice m)) \<and>
         (suffixed False (Split p (CHR '','')) \<longrightarrow>
            length caps = length (filter isBind (Split p (CHR '',''))) \<and>
            map instPos (filter capturing (instSlice m)) = capturePositions 1 (Split p (CHR '','')))"
proof -
  let ?fs = "Split p (CHR '','')"
  from compile_success_fields [OF c] obtain v where
    v: "compileFields g (initVars opts) ?fs = Inr v" and st: "state v = nonParseState"
    and m: "m = matcher v" and fs: "list_all properField ?fs"
    by blast
  from r have ml: "matchLoop (instSlice m) h r [] = (Inr caps, h', r')"
    by (simp add: MatchReader_def)
  have 1: "length caps = length (filter capturing (instSlice m))"
    using ml by (rule matchLoop_count)
  have 2: "\<forall>k \<le> length (instSlice m). \<exists>h1 r1.
            matchLoop (take k (instSlice m)) h r [] =
              (Inr (take (length (filter capturing (take k (instSlice m)))) caps), h1, r1)"
    using matchLoop_prefix [OF ml] by blast
  have "posInv (initVars opts)" by (simp add: posInv_def initVars_simps)
  from compileFields_posInv [OF fs v this] m
  have 3: "sorted_wrt (<) (map instPos (instSlice m))" by (simp add: posInv_def)
  have 4: "length caps = length (filter isBind ?fs) \<and>
            map instPos (filter capturing (instSlice m)) = capturePositions 1 ?fs"
    if s: "suffixed False ?fs"
  proof -
    have "suffixed (state (initVars opts) \<noteq> nonParseState) ?fs"
      using s by (simp add: initVars_simps)
    from compileFields_captures [OF fs v this] st m
    have "map instPos (filter capturing (instSlice m)) = capturePositions 1 ?fs"
      by (simp add: pendingCapture_def initVars_simps)
    moreover from this 1 have "length caps = length (filter isBind ?fs)"
      using length_capturePositions [of 1 ?fs] by (metis length_map)
    ultimately show ?thesis by simp
  qed
  from 1 2 3 4 show ?thesis by blast
qed

theorem capture_count_and_order_witness:
  "Compile gcGrowslice ''N/int,;,V/bin:N,x'' [] =
     Inr (\<lparr>instSlice = [genInstIntWithoutSize 7 '';'' (0, 0) 4096,
                        genInstVarWithSize 9 (0, 0) True, genInstConst 17 ''x''],
           intBinds = \<lparr>arr = 0, len = 1, cap = 1\<rparr>, maxVarSize = 4096\<rparr>, [[0]]) \<and>
   MatchReader
     \<lparr>instSlice = [genInstIntWithoutSize 7 '';'' (0, 0) 4096,
                  genInstVarWithSize 9 (0, 0) True, genInstConst 17 ''x''],
      intBinds = \<lparr>arr = 0, len = 1, cap = 1\<rparr>, maxVarSize = 4096\<rparr> [[0]] (NewReader ''3;abcx'') =
     (Inr [''3'', ''abc''], [[3]], \<lparr>chunks = [], calls = 4\<rparr>) \<and>
   suffixed False (Split ''N/int,;,V/bin:N,x'' (CHR '','')) \<and>
   length [''3'', ''abc''] = length (filter isBind (Split ''N/int,;,V/bin:N,x'' (CHR '',''))) \<and>
   capturePositions 1 (Split ''N/int,;,V/bin:N,x'' (CHR '','')) = [7, 9] \<and>
   (\<exists>h1 r1. matchLoop [genInstIntWithoutSize 7 '';'' (0, 0) 4096] [[0]] (NewReader ''3;abcx'') [] =
      (Inr [''3''], h1, r1))"
proof -
  let ?m = "\<lparr>instSlice = [genInstIntWithoutSize 7 '';'' (0, 0) 4096,
                  genInstVarWithSize 9 (0, 0) True, genInstConst 17 ''x''],
      intBinds = \<lparr>arr = 0, len = 1, cap = 1\<rparr>, maxVarSize = 4096\<rparr>"
  have c: "Compile gcGrowslice ''N/int,;,V/bin:N,x'' [] = Inr (?m, [[0]])"
    by code_simp
  have r: "MatchReader ?m [[0]] (NewReader ''3;abcx'') =
     (Inr [''3'', ''abc''], [[3]], \<lparr>chunks = [], calls = 4\<rparr>)"
    by code_simp
  have s: "suffixed False (Split ''N/int,;,V/bin:N,x'' (CHR '',''))"
    by code_simp
  have p: "capturePositions 1 (Split ''N/int,;,V/bin:N,x'' (CHR '','')) = [7, 9]"
    by code_simp
  note T = capture_count_and_order [OF c r]
  from T s have a: "length [''3'', ''abc''] = length (filter isBind (Split ''N/int,;,V/bin:N,x'' (CHR '','')))"
    by blast
  from T have "\<forall>k \<le> length (instSlice ?m). \<exists>h1 r1.
            matchLoop (take k (instSlice ?m)) [[0]] (NewReader ''3;abcx'') [] =
              (Inr (take (length (filter capturing (take k (instSlice ?m)))) [''3'', ''abc'']), h1, r1)"
    by blast
  from this [rule_format, of 1]
  have b: "\<exists>h1 r1. matchLoop [genInstIntWithoutSize 7 '';'' (0, 0) 4096] [[0]] (NewReader ''3;abcx'') [] =
      (Inr [''3''], h1, r1)"
    by simp
  from c r s a p b show ?thesis by (intro conjI)
qed

text \<open>
  C6, as the claim states it, fails: \<^verbatim>\<open>V/bin,N/int,;\<close> compiles, both \<^verbatim>\<open>V/bin\<close> and
  \<^verbatim>\<open>N/int\<close> are binding directives for the if-chain, and the only instruction is the
  integer scan emitted at \<^verbatim>\<open>;\<close> (the integer directive replaces the pending binary
  one). The match of \<^verbatim>\<open>12;\<close> returns one capture for the two fields. In
  \<^verbatim>\<open>V/bin,W/bin:2,;\<close> the sized directive \<^verbatim>\<open>W/bin:2\<close> emits its instruction while
  \<^verbatim>\<open>V/bin\<close> is pending, and the scan of \<^verbatim>\<open>V/bin\<close> is emitted at \<^verbatim>\<open>;\<close>: on
  \<^verbatim>\<open>abxyz;\<close> the capture of the second field comes first.
\<close>

theorem capture_per_field_counterexample:
  "Compile gcGrowslice ''V/bin,N/int,;'' [] =
     Inr (\<lparr>instSlice = [genInstIntWithoutSize 13 '';'' (0, 0) 4096],
           intBinds = \<lparr>arr = 0, len = 1, cap = 1\<rparr>, maxVarSize = 4096\<rparr>, [[0]]) \<and>
   MatchReader \<lparr>instSlice = [genInstIntWithoutSize 13 '';'' (0, 0) 4096],
                intBinds = \<lparr>arr = 0, len = 1, cap = 1\<rparr>, maxVarSize = 4096\<rparr>
     [[0]] (NewReader ''12;'') =
     (Inr [''12''], [[12]], \<lparr>chunks = [], calls = 3\<rparr>) \<and>
   filter isBind (Split ''V/bin,N/int,;'' (CHR '','')) = [''V/bin'', ''N/int''] \<and>
   Compile gcGrowslice ''V/bin,W/bin:2,;'' [] =
     Inr (\<lparr>instSlice = [genInstVarWithSize 7 (0, 0) True,
                        genInstVarWithoutSize 15 '';'' True 4096],
           intBinds = \<lparr>arr = 0, len = 1, cap = 1\<rparr>, maxVarSize = 4096\<rparr>, [[2]]) \<and>
   MatchReader \<lparr>instSlice = [genInstVarWithSize 7 (0, 0) True,
                             genInstVarWithoutSize 15 '';'' True 4096],
                intBinds = \<lparr>arr = 0, len = 1, cap = 1\<rparr>, maxVarSize = 4096\<rparr>
     [[2]] (NewReader ''abxyz;'') =
     (Inr [''ab'', ''xyz''], [[2]], \<lparr>chunks = [], calls = 5\<rparr>)"
  by code_simp

end
